theory Spec2Isabelle
  imports Complex_Main "HOL-Library.Word" "HOL-Library.Monad_Syntax"
begin

unbundle bit_operations_syntax

section \<open>Data model of \<^verbatim>\<open>steganography.c\<close>\<close>

text \<open>
  A \<^verbatim>\<open>uint8_t\<close> is an 8-bit word. A buffer argument is a pointer together with a
  separate \<^verbatim>\<open>size_t\<close> argument, exactly as in the C signatures: the pointer is
  \<open>None\<close> for \<^verbatim>\<open>NULL\<close> and otherwise \<open>Some\<close> of the bytes stored at it, and the
  size is a natural number. Sizes are not wrapped at \<^verbatim>\<open>SIZE_MAX\<close>: the
  additions on sizes are \<^verbatim>\<open>22 + 1\<close> in \<^verbatim>\<open>decode_lsb_dct\<close> and
  \<^verbatim>\<open>message_length + 8\<close> in \<^verbatim>\<open>encode_lsb_dct\<close>, the latter evaluated after a
  buffer of \<^verbatim>\<open>message_length\<close> bytes has been copied from another one of the same
  size, so that it cannot overflow.

  A step whose behaviour the C standard leaves undefined (reading or writing past the
  end of a buffer, writing through \<^verbatim>\<open>NULL\<close>) makes the model return \<open>None\<close>.
\<close>

type_synonym byte = "8 word"

record SteganographyResult =
  success :: bool
  error_message :: "string option"
  data :: "byte list option"
  data_length :: nat
  width :: int
  height :: int

text \<open>The initialiser \<^verbatim>\<open>SteganographyResult result = {0}\<close>.\<close>

definition zero_result :: SteganographyResult where
  "zero_result =
     \<lparr>success = False, error_message = None, data = None, data_length = 0,
      width = 0, height = 0\<rparr>"

text \<open>
  \<^verbatim>\<open>malloc\<close> may fail. An allocator tells, for the \<open>k\<close>-th request of a call
  (counted from 0) and the requested number of bytes, whether the request returns a
  non-\<^verbatim>\<open>NULL\<close> pointer. It is a parameter of every function that allocates, so
  that each result holds for whatever the allocator does. \<^verbatim>\<open>free\<close> has no effect
  on the values computed.
\<close>

type_synonym allocator = "nat \<Rightarrow> nat \<Rightarrow> bool"

text \<open>
  \<^verbatim>\<open>memcpy(dst, src, n)\<close> into a fresh buffer of at least \<open>n\<close> bytes: the bytes
  written, or \<open>None\<close> when \<open>src\<close> holds fewer than \<open>n\<close> bytes.
\<close>

definition memcpy :: "byte list \<Rightarrow> nat \<Rightarrow> byte list option" where
  "memcpy src n = (if n \<le> length src then Some (take n src) else None)"

text \<open>
  A \<^verbatim>\<open>const char*\<close> argument is the sequence of bytes stored at the pointer; as a
  C string it ends at its first zero byte, or at the end of the sequence, where the
  terminator then follows.
\<close>

definition strlen :: "byte list \<Rightarrow> nat" where
  "strlen s = length (takeWhile (\<lambda>c. c \<noteq> 0) s)"

text \<open>The bytes of a string literal of the source.\<close>

definition bytes_of :: "string \<Rightarrow> byte list" where
  "bytes_of s = map of_char s"

section \<open>The capacity model\<close>

text \<open>
  \<^verbatim>\<open>(size_t)(pixel_count * MAX_CAPACITY_FACTOR)\<close> is computed in IEEE 754 binary64
  with rounding to nearest, ties to even, each operation rounded to binary64
  (\<^verbatim>\<open>FLT_EVAL_METHOD\<close> 0, as on x86-64 and AArch64):
  \<^item> \<open>pixel_count\<close> is converted to the nearest binary64 value;
  \<^item> the literal \<^verbatim>\<open>0.3\<close> is the binary64 value \<open>5404319552844595 / 2 ^ 54\<close>;
  \<^item> the exact product is rounded to the nearest binary64 value;
  \<^item> the conversion to \<^verbatim>\<open>size_t\<close> drops the fraction.
  All values involved are non-negative, far from the subnormal and the overflow range,
  so a binary64 value is a natural number with at most 53 significant bits, scaled by
  a power of two, and rounding acts on the numerator alone.

  \<open>excess_bits n\<close> is the number of bits of \<open>n\<close> beyond 53.
\<close>

function excess_bits :: "nat \<Rightarrow> nat" where
  "excess_bits n = (if n < 2 ^ 53 then 0 else Suc (excess_bits (n div 2)))"
  by pat_completeness auto
termination
  by (relation "measure (\<lambda>n. n)") auto

declare excess_bits.simps [simp del]

definition round53 :: "nat \<Rightarrow> nat" where
  "round53 n =
     (let e = excess_bits n; q = n div 2 ^ e; r = n mod 2 ^ e
      in if 2 * r < 2 ^ e \<or> (2 * r = 2 ^ e \<and> even q) then q * 2 ^ e else (q + 1) * 2 ^ e)"

definition MAX_CAPACITY_FACTOR :: nat where
  "MAX_CAPACITY_FACTOR = 5404319552844595"

definition get_max_capacity :: "byte list option \<Rightarrow> nat \<Rightarrow> nat" where
  "get_max_capacity image_data image_size =
     (if image_size < 100 then 0
      else let pixel_count = image_size div 3
           in round53 (round53 pixel_count * MAX_CAPACITY_FACTOR) div 2 ^ 54)"

section \<open>The payload cipher\<close>

text \<open>
  The loop of \<^verbatim>\<open>xor_encrypt\<close>, from index \<open>i\<close> on. \<^verbatim>\<open>data[i]\<close> past the end of
  the buffer is undefined behaviour. The key byte is a \<^verbatim>\<open>char\<close>, promoted to
  \<^verbatim>\<open>int\<close> for the exclusive or; storing into a \<^verbatim>\<open>uint8_t\<close> keeps the low eight
  bits, which are the exclusive or of the two bytes.
\<close>

function xor_encrypt_loop ::
  "byte list \<Rightarrow> nat \<Rightarrow> byte list \<Rightarrow> nat \<Rightarrow> nat \<Rightarrow> byte list option" where
  "xor_encrypt_loop buf len password pass_len i =
     (if i < len then
        (if i < length buf then
           xor_encrypt_loop (buf[i := buf ! i XOR password ! (i mod pass_len)])
             len password pass_len (i + 1)
         else None)
      else Some buf)"
  by pat_completeness auto
termination
  by (relation "measure (\<lambda>(buf, len, password, pass_len, i). len - i)") auto

declare xor_encrypt_loop.simps [simp del]

text \<open>
  \<^verbatim>\<open>xor_encrypt(data, length, password)\<close> works in place; the model returns the
  new contents of the buffer \<open>buf\<close> that \<^verbatim>\<open>data\<close> points to.
\<close>

definition xor_encrypt :: "byte list \<Rightarrow> nat \<Rightarrow> byte list \<Rightarrow> byte list option" where
  "xor_encrypt buf len password =
     (let pass_len = strlen password
      in if pass_len = 0 then Some buf
         else xor_encrypt_loop buf len password pass_len 0)"

section \<open>Embedding and extraction\<close>

text \<open>
  \<^verbatim>\<open>encode_lsb_dct\<close>, statement by statement. The source ciphers a copy of the
  message, checks the capacity, and then returns a copy of the carrier as it is: where
  the bits would be embedded it has the comment
  \<^verbatim>\<open>TODO: Implementasi lengkap LSB + DCT\<close>, and the ciphered copy is freed unused.
  The second \<^verbatim>\<open>malloc\<close> is not checked, so its failure makes the following
  \<^verbatim>\<open>memcpy\<close> write through \<^verbatim>\<open>NULL\<close>.
\<close>

definition encode_lsb_dct ::
  "allocator \<Rightarrow> byte list option \<Rightarrow> nat \<Rightarrow> byte list option \<Rightarrow> nat \<Rightarrow> byte list
     \<Rightarrow> SteganographyResult option" where
  "encode_lsb_dct alloc image_data image_size message message_length password =
     (case (image_data, message) of
        (Some img, Some msg) \<Rightarrow>
          if \<not> alloc 0 message_length then
            Some (zero_result\<lparr>success := False,
                    error_message := Some ''Memory allocation failed''\<rparr>)
          else do {
            copied \<leftarrow> memcpy msg message_length;
            encrypted_message \<leftarrow> xor_encrypt copied message_length password;
            let max_capacity = get_max_capacity image_data image_size;
            if message_length + 8 > max_capacity then
              Some (zero_result\<lparr>success := False,
                      error_message := Some ''Message too large for image capacity''\<rparr>)
            else if \<not> alloc 1 image_size then None
            else do {
              result_data \<leftarrow> memcpy img image_size;
              Some (zero_result\<lparr>success := True, data := Some result_data,
                      data_length := image_size, width := 0, height := 0\<rparr>)
            }
          }
      | _ \<Rightarrow>
          Some (zero_result\<lparr>success := False,
                  error_message := Some ''Invalid input data''\<rparr>))"

text \<open>
  \<^verbatim>\<open>decode_lsb_dct\<close>, statement by statement. After the test of the pointer the
  source does not read the carrier: under the comment
  \<^verbatim>\<open>TODO: Implementasi decode LSB + DCT\<close> it copies the literal
  \<^verbatim>\<open>demo_message\<close>, terminator included, into a fresh buffer and applies
  \<^verbatim>\<open>xor_encrypt\<close> to all of it but the terminator.
\<close>

definition demo_message :: string where
  "demo_message = ''Decoded secret message''"

definition decode_lsb_dct ::
  "allocator \<Rightarrow> byte list option \<Rightarrow> nat \<Rightarrow> byte list \<Rightarrow> SteganographyResult option" where
  "decode_lsb_dct alloc image_data image_size password =
     (case image_data of
        None \<Rightarrow>
          Some (zero_result\<lparr>success := False,
                  error_message := Some ''Invalid image data''\<rparr>)
      | Some img \<Rightarrow>
          let message_length = strlen (bytes_of demo_message)
          in if \<not> alloc 0 (message_length + 1) then
               Some (zero_result\<lparr>success := False,
                       error_message := Some ''Memory allocation failed''\<rparr>)
             else do {
               decoded_message \<leftarrow>
                 xor_encrypt (bytes_of demo_message @ [0]) message_length password;
               Some (zero_result\<lparr>success := True, data := Some decoded_message,
                       data_length := message_length, width := 0, height := 0\<rparr>)
             })"

text \<open>
  What a caller reads from a result: the first \<open>data_length\<close> bytes of the \<open>data\<close>
  buffer, when there is one.
\<close>

definition result_bytes :: "SteganographyResult \<Rightarrow> byte list option" where
  "result_bytes r = map_option (take (data_length r)) (data r)"

section \<open>The block transform\<close>

text \<open>
  A \<^verbatim>\<open>double\<close> is a real number, and every floating-point operation of the source
  is the exact operation followed by a rounding \<open>rnd\<close>; \<^verbatim>\<open>cos\<close> and \<^verbatim>\<open>sqrt\<close>
  of the C library are the functions \<open>fcos\<close> and \<open>fsqrt\<close>. The three are parameters of
  the model: the theorems state what they need of them. Each operation is rounded to
  \<^verbatim>\<open>double\<close> on its own (\<^verbatim>\<open>FLT_EVAL_METHOD\<close> 0, no contraction into fused
  multiply-add), in the order in which C evaluates the expression. The conversions of
  the \<^verbatim>\<open>int\<close> values \<^verbatim>\<open>(2*x+1)*u\<close> (at most 105) and the constants
  \<^verbatim>\<open>0.25\<close>, \<^verbatim>\<open>1.0\<close>, \<^verbatim>\<open>2.0\<close> and \<^verbatim>\<open>16.0\<close> are exact.

  \<^verbatim>\<open>M_PI\<close> is the \<^verbatim>\<open>double\<close> nearest to \<^verbatim>\<open>3.14159265358979323846\<close>.
\<close>

definition M_PI :: real where
  "M_PI = 884279719003555 / 2 ^ 48"

text \<open>
  \<^verbatim>\<open>(u == 0) ? 1.0/sqrt(2.0) : 1.0\<close> and
  \<^verbatim>\<open>cos((2*x+1)*u*M_PI/16.0)\<close>, the two subexpressions that both transforms share.
\<close>

definition coefficient :: "(real \<Rightarrow> real) \<Rightarrow> (real \<Rightarrow> real) \<Rightarrow> nat \<Rightarrow> real" where
  "coefficient rnd fsqrt u = (if u = 0 then rnd (1 / fsqrt 2) else 1)"

definition cosine :: "(real \<Rightarrow> real) \<Rightarrow> (real \<Rightarrow> real) \<Rightarrow> nat \<Rightarrow> nat \<Rightarrow> real" where
  "cosine rnd fcos x u = fcos (rnd (rnd (real ((2 * x + 1) * u) * M_PI) / 16))"

text \<open>
  A \<^verbatim>\<open>double block[8][8]\<close> is a function of two indices, of which the values
  below 8 are the entries. Both transforms fill \<^verbatim>\<open>temp\<close> from the block they are
  given and copy it back, so the model returns the new block. The two inner loops add
  the 64 terms to the accumulator in row-major order, rounding after each addition.
\<close>

definition dct_transform ::
  "(real \<Rightarrow> real) \<Rightarrow> (real \<Rightarrow> real) \<Rightarrow> (real \<Rightarrow> real) \<Rightarrow> (nat \<Rightarrow> nat \<Rightarrow> real) \<Rightarrow> nat \<Rightarrow> nat \<Rightarrow> real" where
  "dct_transform rnd fcos fsqrt block u v =
     (let cu = coefficient rnd fsqrt u;
          cv = coefficient rnd fsqrt v;
          total = fold (\<lambda>x. fold (\<lambda>y acc.
                    rnd (acc + rnd (rnd (block x y * cosine rnd fcos x u) * cosine rnd fcos y v)))
                  [0..<8]) [0..<8] 0
      in rnd (rnd (rnd (1 / 4 * cu) * cv) * total))"

definition idct_transform ::
  "(real \<Rightarrow> real) \<Rightarrow> (real \<Rightarrow> real) \<Rightarrow> (real \<Rightarrow> real) \<Rightarrow> (nat \<Rightarrow> nat \<Rightarrow> real) \<Rightarrow> nat \<Rightarrow> nat \<Rightarrow> real" where
  "idct_transform rnd fcos fsqrt block x y =
     (let total = fold (\<lambda>u. fold (\<lambda>v acc.
                    let cu = coefficient rnd fsqrt u;
                        cv = coefficient rnd fsqrt v
                    in rnd (acc + rnd (rnd (rnd (rnd (cu * cv) * block u v)
                                * cosine rnd fcos x u) * cosine rnd fcos y v)))
                  [0..<8]) [0..<8] 0
      in rnd (1 / 4 * total))"

text \<open>
  The transforms in exact arithmetic, with the exact cosines and scale factors: the
  discrete cosine transform of type II and its inverse. They are the reference for
  the error analysis.
\<close>

definition dct_cos :: "nat \<Rightarrow> nat \<Rightarrow> real" where
  "dct_cos x u = cos (real ((2 * x + 1) * u) * pi / 16)"

definition dct_scale :: "nat \<Rightarrow> real" where
  "dct_scale u = (if u = 0 then 1 / sqrt 2 else 1)"

definition dct_exact :: "(nat \<Rightarrow> nat \<Rightarrow> real) \<Rightarrow> nat \<Rightarrow> nat \<Rightarrow> real" where
  "dct_exact M u v =
     1 / 4 * dct_scale u * dct_scale v * (\<Sum>x<8. \<Sum>y<8. M x y * dct_cos x u * dct_cos y v)"

definition idct_exact :: "(nat \<Rightarrow> nat \<Rightarrow> real) \<Rightarrow> nat \<Rightarrow> nat \<Rightarrow> real" where
  "idct_exact F x y =
     1 / 4 * (\<Sum>u<8. \<Sum>v<8. dct_scale u * dct_scale v * F u v * dct_cos x u * dct_cos y v)"

section \<open>Properties of the capacity model\<close>

text \<open>
  \<open>excess_bits n\<close> places \<open>n\<close> in its binade: \<open>n\<close> has at most \<open>53 + excess_bits n\<close>
  bits, and exactly that many when \<open>excess_bits n\<close> is positive.
\<close>

lemma excess_bits_upper: "n < 2 ^ 53 * 2 ^ excess_bits n"
proof (induction n rule: excess_bits.induct)
  case (1 n)
  show ?case
  proof (cases "n < 2 ^ 53")
    case True
    then show ?thesis by (simp add: excess_bits.simps [of n])
  next
    case False
    then have e: "excess_bits n = Suc (excess_bits (n div 2))"
      by (simp add: excess_bits.simps [of n])
    from "1.IH" [OF False] have "n div 2 < 2 ^ 53 * 2 ^ excess_bits (n div 2)" .
    then have "n < 2 * (2 ^ 53 * 2 ^ excess_bits (n div 2))" by linarith
    also have "\<dots> = 2 ^ 53 * 2 ^ excess_bits n" unfolding e by simp
    finally show ?thesis .
  qed
qed

lemma excess_bits_lower: "0 < excess_bits n \<Longrightarrow> 2 ^ 52 * 2 ^ excess_bits n \<le> n"
proof (induction n rule: excess_bits.induct)
  case (1 n)
  show ?case
  proof (cases "n < 2 ^ 53")
    case True
    with "1.prems" show ?thesis by (simp add: excess_bits.simps [of n])
  next
    case False
    then have e: "excess_bits n = Suc (excess_bits (n div 2))"
      by (simp add: excess_bits.simps [of n])
    show ?thesis
    proof (cases "excess_bits (n div 2) = 0")
      case True
      with e False show ?thesis by simp
    next
      case nz: False
      then have "2 ^ 52 * 2 ^ excess_bits (n div 2) \<le> n div 2"
        using "1.IH" [OF False] by simp
      then have "2 * (2 ^ 52 * 2 ^ excess_bits (n div 2)) \<le> n" by linarith
      moreover have "2 * (2 ^ 52 * 2 ^ excess_bits (n div 2)) = (2::nat) ^ 52 * 2 ^ excess_bits n"
        unfolding e by simp
      ultimately show ?thesis by simp
    qed
  qed
qed

lemma excess_bits_mono: "n \<le> m \<Longrightarrow> excess_bits n \<le> excess_bits m"
proof (induction n arbitrary: m rule: excess_bits.induct)
  case (1 n)
  show ?case
  proof (cases "n < 2 ^ 53")
    case True
    then show ?thesis by (simp add: excess_bits.simps [of n])
  next
    case False
    with "1.prems" have m: "\<not> m < 2 ^ 53" by linarith
    from "1.prems" have "n div 2 \<le> m div 2" by (rule div_le_mono)
    from "1.IH" [OF False this] False m show ?thesis
      by (simp add: excess_bits.simps [of n] excess_bits.simps [of m])
  qed
qed

lemma excess_bits_small: "n < 2 ^ 53 \<Longrightarrow> excess_bits n = 0"
  by (simp add: excess_bits.simps [of n])

text \<open>
  Rounding keeps a value within its binade, end points included, leaves a value of at
  most 53 bits as it is, and is monotone.
\<close>

lemma round53_lower: "(n div 2 ^ excess_bits n) * 2 ^ excess_bits n \<le> round53 n"
  by (simp add: round53_def Let_def)

lemma round53_le_up: "round53 n \<le> (n div 2 ^ excess_bits n + 1) * 2 ^ excess_bits n"
  by (simp add: round53_def Let_def)

lemma round53_upper: "round53 n \<le> 2 ^ 53 * 2 ^ excess_bits n"
proof -
  let ?e = "excess_bits n"
  have "n div 2 ^ ?e < 2 ^ 53"
    using excess_bits_upper [of n] by (rule less_mult_imp_div_less)
  then have "n div 2 ^ ?e + 1 \<le> 2 ^ 53" by linarith
  then have "(n div 2 ^ ?e + 1) * 2 ^ ?e \<le> 2 ^ 53 * 2 ^ ?e"
    by (rule mult_le_mono1)
  with round53_le_up [of n] show ?thesis by (rule order_trans)
qed

lemma round53_ge_binade: "0 < excess_bits n \<Longrightarrow> 2 ^ 52 * 2 ^ excess_bits n \<le> round53 n"
proof -
  assume pos: "0 < excess_bits n"
  let ?e = "excess_bits n"
  have "2 ^ 52 * 2 ^ ?e div 2 ^ ?e \<le> n div 2 ^ ?e"
    using excess_bits_lower [OF pos] by (rule div_le_mono)
  moreover have "2 ^ 52 * 2 ^ ?e div 2 ^ ?e = (2::nat) ^ 52"
    by (rule nonzero_mult_div_cancel_right) simp
  ultimately have "(2::nat) ^ 52 \<le> n div 2 ^ ?e" by (simp only:)
  then have "2 ^ 52 * 2 ^ ?e \<le> (n div 2 ^ ?e) * 2 ^ ?e"
    by (rule mult_le_mono1)
  then show ?thesis using round53_lower [of n] by (rule order_trans)
qed

lemma round53_small: "n < 2 ^ 53 \<Longrightarrow> round53 n = n"
  by (simp add: round53_def excess_bits_small)

lemma round53_mono_same:
  assumes nm: "n \<le> m" and e: "excess_bits n = excess_bits m"
  shows "round53 n \<le> round53 m"
proof -
  let ?e = "excess_bits m"
  let ?qn = "n div 2 ^ ?e" and ?qm = "m div 2 ^ ?e"
  have q: "?qn \<le> ?qm" using nm by (rule div_le_mono)
  show ?thesis
  proof (cases "?qn < ?qm")
    case True
    then have "?qn + 1 \<le> ?qm" by simp
    then have "(?qn + 1) * 2 ^ ?e \<le> ?qm * 2 ^ ?e" by (rule mult_le_mono1)
    moreover have "round53 n \<le> (?qn + 1) * 2 ^ ?e"
      using round53_le_up [of n] by (simp only: e)
    ultimately show ?thesis using round53_lower [of m] by linarith
  next
    case False
    with q have qeq: "?qn = ?qm" by simp
    have "?qn * 2 ^ ?e + n mod 2 ^ ?e = n" by (rule div_mult_mod_eq)
    moreover have "?qm * 2 ^ ?e + m mod 2 ^ ?e = m" by (rule div_mult_mod_eq)
    ultimately have r: "n mod 2 ^ ?e \<le> m mod 2 ^ ?e"
      using nm qeq by (metis add_le_cancel_left)
    show ?thesis
      using r qeq by (auto simp: round53_def Let_def e)
  qed
qed

lemma round53_mono: "n \<le> m \<Longrightarrow> round53 n \<le> round53 m"
proof -
  assume nm: "n \<le> m"
  from excess_bits_mono [OF nm] have "excess_bits n = excess_bits m \<or> excess_bits n < excess_bits m"
    by linarith
  then show ?thesis
  proof
    assume "excess_bits n = excess_bits m"
    with nm show ?thesis by (rule round53_mono_same)
  next
    assume lt: "excess_bits n < excess_bits m"
    then have "Suc (excess_bits n) \<le> excess_bits m" by simp
    then have "(2::nat) ^ Suc (excess_bits n) \<le> 2 ^ excess_bits m"
      by (rule power_increasing) simp
    then have "2 ^ 52 * (2::nat) ^ Suc (excess_bits n) \<le> 2 ^ 52 * 2 ^ excess_bits m"
      by (rule mult_le_mono2)
    moreover have "2 ^ 52 * (2::nat) ^ Suc (excess_bits n) = 2 ^ 53 * 2 ^ excess_bits n"
      by simp
    moreover from lt have "0 < excess_bits m" by simp
    then have "2 ^ 52 * 2 ^ excess_bits m \<le> round53 m" by (rule round53_ge_binade)
    ultimately show ?thesis using round53_upper [of n] by linarith
  qed
qed

lemma get_max_capacity_mono:
  "s1 \<le> s2 \<Longrightarrow> get_max_capacity p1 s1 \<le> get_max_capacity p2 s2"
proof -
  assume s: "s1 \<le> s2"
  show ?thesis
  proof (cases "s1 < 100")
    case True
    then show ?thesis by (simp add: get_max_capacity_def)
  next
    case False
    with s have s2: "\<not> s2 < 100" by simp
    from s have "s1 div 3 \<le> s2 div 3" by (rule div_le_mono)
    then have "round53 (s1 div 3) \<le> round53 (s2 div 3)" by (rule round53_mono)
    then have "round53 (s1 div 3) * MAX_CAPACITY_FACTOR \<le> round53 (s2 div 3) * MAX_CAPACITY_FACTOR"
      by (rule mult_le_mono1)
    then have "round53 (round53 (s1 div 3) * MAX_CAPACITY_FACTOR)
        \<le> round53 (round53 (s2 div 3) * MAX_CAPACITY_FACTOR)" by (rule round53_mono)
    then have "round53 (round53 (s1 div 3) * MAX_CAPACITY_FACTOR) div 2 ^ 54
        \<le> round53 (round53 (s2 div 3) * MAX_CAPACITY_FACTOR) div 2 ^ 54" by (rule div_le_mono)
    with False s2 show ?thesis by (simp add: get_max_capacity_def Let_def)
  qed
qed

lemma get_max_capacity_below_minimum: "s < 100 \<Longrightarrow> get_max_capacity p s = 0"
  by (simp add: get_max_capacity_def)

text \<open>
  The capacity of carriers of 0, 9000 and 30000 bytes. For 30000 bytes the product
  \<open>10000 * 5404319552844595\<close> has 66 bits; rounding it to 53 bits gives
  \<open>3000 * 2 ^ 54\<close> exactly.
\<close>

lemma get_max_capacity_0: "get_max_capacity p 0 = 0"
  by (simp add: get_max_capacity_def)

lemma excess_bits_product_10000: "excess_bits 54043195528445950000 = 13"
  by (simp add: excess_bits.simps)

lemma round53_product_10000: "round53 54043195528445950000 = 54043195528445952000"
  by (simp add: round53_def excess_bits_product_10000)

lemma get_max_capacity_30000: "get_max_capacity p 30000 = 3000"
proof -
  have "round53 (30000 div 3) = 10000" by (simp add: round53_small)
  then show ?thesis
    unfolding get_max_capacity_def Let_def MAX_CAPACITY_FACTOR_def
    by (simp add: round53_product_10000)
qed

lemma excess_bits_product_3000: "excess_bits 16212958658533785000 = 11"
  by (simp add: excess_bits.simps)

lemma round53_product_3000: "round53 16212958658533785000 = 16212958658533785600"
  by (simp add: round53_def excess_bits_product_3000)

lemma get_max_capacity_9000: "get_max_capacity p 9000 = 900"
proof -
  have "round53 (9000 div 3) = 3000" by (simp add: round53_small)
  then show ?thesis
    unfolding get_max_capacity_def Let_def MAX_CAPACITY_FACTOR_def
    by (simp add: round53_product_3000)
qed

text \<open>
  C6. The capacity is non-decreasing in the carrier size, \<open>s1 \<le> s2\<close> implies
  \<open>get_max_capacity p1 s1 \<le> get_max_capacity p2 s2\<close> whatever the pointers, and a
  carrier below the minimum size of 100 bytes has capacity exactly zero.
\<close>

theorem get_max_capacity_monotone:
  "(s1 \<le> s2 \<longrightarrow> get_max_capacity p1 s1 \<le> get_max_capacity p2 s2) \<and>
   (s < 100 \<longrightarrow> get_max_capacity p s = 0)"
  using get_max_capacity_mono [of s1 s2 p1 p2] get_max_capacity_below_minimum [of s p]
  by blast

theorem get_max_capacity_monotone_witness:
  "(9000::nat) \<le> 30000 \<and>
   get_max_capacity None 9000 \<le> get_max_capacity None 30000 \<and>
   get_max_capacity None 9000 = 900 \<and> get_max_capacity None 30000 = 3000 \<and>
   (99::nat) < 100 \<and> get_max_capacity None 99 = 0"
  using get_max_capacity_monotone [of 9000 30000 None None 99 None]
  by (simp add: get_max_capacity_9000 get_max_capacity_30000)

section \<open>Properties of the payload cipher\<close>

text \<open>
  Within the bounds of the buffer the loop returns, and it changes exactly the bytes
  from \<open>i\<close> up to \<open>len\<close>, each by the key byte at its index modulo the key length.
\<close>

lemma xor_encrypt_loop_nth:
  "len \<le> length buf \<Longrightarrow>
   \<exists>out. xor_encrypt_loop buf len password pass_len i = Some out \<and>
         length out = length buf \<and>
         (\<forall>j<length buf. out ! j =
            (if i \<le> j \<and> j < len then buf ! j XOR password ! (j mod pass_len) else buf ! j))"
proof (induction buf len password pass_len i rule: xor_encrypt_loop.induct)
  case (1 buf len password pass_len i)
  show ?case
  proof (cases "i < len")
    case False
    then have "xor_encrypt_loop buf len password pass_len i = Some buf"
      by (simp add: xor_encrypt_loop.simps [of buf len password pass_len i])
    with False show ?thesis by auto
  next
    case True
    with "1.prems" have inb: "i < length buf" by simp
    let ?buf' = "buf[i := buf ! i XOR password ! (i mod pass_len)]"
    from "1.prems" have "len \<le> length ?buf'" by simp
    from "1.IH" [OF True inb this]
    obtain out where out: "xor_encrypt_loop ?buf' len password pass_len (i + 1) = Some out"
      and len_out: "length out = length ?buf'"
      and nth_out: "\<forall>j<length ?buf'. out ! j =
            (if i + 1 \<le> j \<and> j < len then ?buf' ! j XOR password ! (j mod pass_len)
             else ?buf' ! j)"
      by blast
    have "xor_encrypt_loop buf len password pass_len i = Some out"
      using True inb out by (simp add: xor_encrypt_loop.simps [of buf len password pass_len i])
    moreover have "length out = length buf" using len_out by simp
    moreover have "\<forall>j<length buf. out ! j =
            (if i \<le> j \<and> j < len then buf ! j XOR password ! (j mod pass_len) else buf ! j)"
    proof (intro allI impI)
      fix j assume j: "j < length buf"
      show "out ! j =
            (if i \<le> j \<and> j < len then buf ! j XOR password ! (j mod pass_len) else buf ! j)"
      proof (cases "j = i")
        case True
        with nth_out j inb \<open>i < len\<close> show ?thesis by simp
      next
        case False
        with nth_out j show ?thesis by (auto simp: nth_list_update)
      qed
    qed
    ultimately show ?thesis by blast
  qed
qed

lemma xor_encrypt_nth:
  assumes "len \<le> length buf"
  shows "\<exists>out. xor_encrypt buf len password = Some out \<and> length out = length buf \<and>
         (\<forall>j<length buf. out ! j =
            (if strlen password \<noteq> 0 \<and> j < len
             then buf ! j XOR password ! (j mod strlen password) else buf ! j))"
proof (cases "strlen password = 0")
  case True
  then show ?thesis by (simp add: xor_encrypt_def)
next
  case False
  from xor_encrypt_loop_nth [OF assms, of password "strlen password" 0] False
  show ?thesis by (simp add: xor_encrypt_def)
qed

lemma xor_encrypt_returns:
  "len \<le> length buf \<Longrightarrow> \<exists>out. xor_encrypt buf len password = Some out"
  using xor_encrypt_nth [of len buf password] by blast

text \<open>
  C3. Cipher involution: for every byte sequence \<open>D\<close> and every non-empty key \<open>K\<close>,
  applying \<open>xor_encrypt\<close> to the whole of \<open>D\<close> twice with the same key returns both
  times and restores the original bytes.
\<close>

theorem xor_encrypt_involution:
  "K \<noteq> [] \<Longrightarrow>
   \<exists>D'. xor_encrypt D (length D) K = Some D' \<and> xor_encrypt D' (length D) K = Some D"
proof -
  obtain D' where 1: "xor_encrypt D (length D) K = Some D'" and l1: "length D' = length D"
    and n1: "\<forall>j<length D. D' ! j =
            (if strlen K \<noteq> 0 \<and> j < length D
             then D ! j XOR K ! (j mod strlen K) else D ! j)"
    using xor_encrypt_nth [of "length D" D K] by auto
  obtain D'' where 2: "xor_encrypt D' (length D) K = Some D''" and l2: "length D'' = length D'"
    and n2: "\<forall>j<length D'. D'' ! j =
            (if strlen K \<noteq> 0 \<and> j < length D
             then D' ! j XOR K ! (j mod strlen K) else D' ! j)"
    using xor_encrypt_nth [of "length D" D' K] l1 by auto
  have "D'' = D"
  proof (rule nth_equalityI)
    show "length D'' = length D" using l1 l2 by simp
  next
    fix j assume "j < length D''"
    then have j: "j < length D" using l1 l2 by simp
    show "D'' ! j = D ! j"
      using n1 n2 j l1 by (simp add: xor.assoc)
  qed
  with 1 2 show ?thesis by simp
qed

theorem xor_encrypt_involution_witness:
  "bytes_of ''ab'' \<noteq> [] \<and>
   (\<exists>D'. xor_encrypt [1, 2, 3] (length [1, 2, 3 :: byte]) (bytes_of ''ab'') = Some D' \<and>
         xor_encrypt D' (length [1, 2, 3 :: byte]) (bytes_of ''ab'') = Some [1, 2, 3])"
  using xor_encrypt_involution [of "bytes_of ''ab''" "[1, 2, 3]"]
  by (simp add: bytes_of_def)

text \<open>
  C9. With an empty key \<open>xor_encrypt\<close> returns the data unchanged, whatever the
  length argument: the call is defined (it returns before the loop and its
  \<^verbatim>\<open>i % pass_len\<close>), not an error.
\<close>

theorem xor_encrypt_empty_key: "xor_encrypt D n [] = Some D"
  by (simp add: xor_encrypt_def strlen_def)

section \<open>Properties of embedding\<close>

text \<open>
  The three ways \<open>encode_lsb_dct\<close> returns when its first allocation succeeds or is
  not reached: a \<^verbatim>\<open>NULL\<close> argument, a message that exceeds the capacity, and
  success, which returns a copy of the first \<open>image_size\<close> bytes of the carrier.
\<close>

lemma encode_null:
  "image_data = None \<or> message = None \<Longrightarrow>
   encode_lsb_dct alloc image_data image_size message message_length password =
     Some (zero_result\<lparr>success := False, error_message := Some ''Invalid input data''\<rparr>)"
  by (auto simp: encode_lsb_dct_def split: option.splits)

lemma encode_too_large:
  assumes "alloc 0 message_length" and "message_length \<le> length msg"
    and "get_max_capacity (Some img) image_size < message_length + 8"
  shows "encode_lsb_dct alloc (Some img) image_size (Some msg) message_length password =
     Some (zero_result\<lparr>success := False,
             error_message := Some ''Message too large for image capacity''\<rparr>)"
proof -
  from assms(2) have "length (take message_length msg) = message_length" by simp
  then obtain enc where "xor_encrypt (take message_length msg) message_length password = Some enc"
    using xor_encrypt_returns [of message_length "take message_length msg" password] by auto
  with assms show ?thesis
    by (simp add: encode_lsb_dct_def memcpy_def)
qed

lemma encode_copies:
  assumes "alloc 0 message_length" and "message_length \<le> length msg"
    and "message_length + 8 \<le> get_max_capacity (Some img) image_size"
    and "alloc 1 image_size" and "image_size \<le> length img"
  shows "encode_lsb_dct alloc (Some img) image_size (Some msg) message_length password =
     Some \<lparr>success = True, error_message = None, data = Some (take image_size img),
           data_length = image_size, width = 0, height = 0\<rparr>"
proof -
  from assms(2) have "length (take message_length msg) = message_length" by simp
  then obtain enc where "xor_encrypt (take message_length msg) message_length password = Some enc"
    using xor_encrypt_returns [of message_length "take message_length msg" password] by auto
  with assms show ?thesis
    by (simp add: encode_lsb_dct_def memcpy_def zero_result_def)
qed

lemma encode_not_invalid_input:
  "encode_lsb_dct alloc (Some img) image_size (Some msg) message_length password = Some r \<Longrightarrow>
   error_message r \<noteq> Some ''Invalid input data''"
  by (auto simp: encode_lsb_dct_def zero_result_def Let_def
        split: if_splits Option.bind_splits)

text \<open>
  C5, as the specification states it, fails: \<open>encode_lsb_dct\<close> allocates the cipher
  buffer and ciphers the message before it checks the capacity. When that allocation
  fails, a payload that exceeds the capacity (2993 bytes and the 8 bytes of header
  against a capacity of 3000) is rejected with \<^verbatim>\<open>Memory allocation failed\<close>, not
  with \<^verbatim>\<open>Message too large for image capacity\<close>.
\<close>

theorem encode_oversize_allocation_failure:
  "get_max_capacity (Some (replicate 30000 0)) 30000 < 2993 + 8 \<and>
   encode_lsb_dct (\<lambda>k n. False) (Some (replicate 30000 0)) 30000
       (Some (replicate 2993 7)) 2993 (bytes_of ''test123'') =
     Some \<lparr>success = False, error_message = Some ''Memory allocation failed'',
           data = None, data_length = 0, width = 0, height = 0\<rparr>"
  by (simp add: get_max_capacity_30000 encode_lsb_dct_def zero_result_def)

text \<open>
  C5, amended. For every non-\<^verbatim>\<open>NULL\<close> carrier and every non-\<^verbatim>\<open>NULL\<close> payload
  whose length plus the 8 bytes of header exceeds \<open>get_max_capacity\<close> of the carrier,
  \<open>encode_lsb_dct\<close> returns a failure with no data buffer, whatever the allocator
  does. The message is \<^verbatim>\<open>Message too large for image capacity\<close> when the
  allocation of the cipher buffer, which precedes the capacity check, succeeds, and
  \<^verbatim>\<open>Memory allocation failed\<close> when it fails. The witness is a payload of 2993
  bytes in a carrier of capacity 3000: with the header, one byte too many.
\<close>

theorem encode_oversize_payload_fails:
  assumes "message_length \<le> length msg"
    and "get_max_capacity (Some img) image_size < message_length + 8"
  shows "\<exists>r. encode_lsb_dct alloc (Some img) image_size (Some msg) message_length password
             = Some r \<and>
           \<not> success r \<and> data r = None \<and> data_length r = 0 \<and>
           error_message r =
             Some (if alloc 0 message_length then ''Message too large for image capacity''
                   else ''Memory allocation failed'')"
proof (cases "alloc 0 message_length")
  case True
  with assms show ?thesis
    using encode_too_large [of alloc message_length msg img image_size password]
    by (simp add: zero_result_def)
next
  case False
  then show ?thesis
    by (simp add: encode_lsb_dct_def zero_result_def)
qed

theorem encode_oversize_payload_fails_witness:
  "2993 \<le> length (replicate 2993 (7::byte)) \<and>
   get_max_capacity (Some (replicate 30000 0)) 30000 < 2993 + 8 \<and>
   (\<exists>r. encode_lsb_dct (\<lambda>k n. True) (Some (replicate 30000 0)) 30000
           (Some (replicate 2993 7)) 2993 (bytes_of ''test123'') = Some r \<and>
        \<not> success r \<and> data r = None \<and> data_length r = 0 \<and>
        error_message r = Some ''Message too large for image capacity'')"
  using encode_oversize_payload_fails [of 2993 "replicate 2993 7"
      "replicate 30000 0" 30000 "\<lambda>k n. True" "bytes_of ''test123''"]
  by (simp add: get_max_capacity_30000)

text \<open>
  C2, as the specification states it, fails: a carrier of 30000 bytes has 10000
  pixels of 3 bytes, and its capacity is 3000, not 900.
\<close>

theorem capacity_30000_not_900:
  "get_max_capacity (Some (replicate 30000 0)) 30000 \<noteq> 900"
  by (simp add: get_max_capacity_30000)

text \<open>
  C2, amended. For a carrier of 30000 bytes the capacity is 3000; embedding a payload
  of 10 bytes with the password \<^verbatim>\<open>test123\<close> succeeds, and so does embedding a
  payload of 200 bytes, since 200 + 8 does not exceed 3000 (both given that the two
  allocations succeed). The result carries an unchanged copy of the carrier.
\<close>

theorem scenario_30000_bytes:
  "length img = 30000 \<longrightarrow>
     get_max_capacity (Some img) 30000 = 3000 \<and>
     (length msg10 = 10 \<and> alloc 0 10 \<and> alloc 1 30000 \<longrightarrow>
        encode_lsb_dct alloc (Some img) 30000 (Some msg10) 10 (bytes_of ''test123'') =
          Some \<lparr>success = True, error_message = None, data = Some img,
                data_length = 30000, width = 0, height = 0\<rparr>) \<and>
     (length msg200 = 200 \<and> alloc 0 200 \<and> alloc 1 30000 \<longrightarrow>
        encode_lsb_dct alloc (Some img) 30000 (Some msg200) 200 password =
          Some \<lparr>success = True, error_message = None, data = Some img,
                data_length = 30000, width = 0, height = 0\<rparr>)"
proof (intro impI conjI)
  show "get_max_capacity (Some img) 30000 = 3000" by (rule get_max_capacity_30000)
next
  assume "length img = 30000" and "length msg10 = 10 \<and> alloc 0 10 \<and> alloc 1 30000"
  then show "encode_lsb_dct alloc (Some img) 30000 (Some msg10) 10 (bytes_of ''test123'') =
          Some \<lparr>success = True, error_message = None, data = Some img,
                data_length = 30000, width = 0, height = 0\<rparr>"
    using encode_copies [of alloc 10 msg10 img 30000 "bytes_of ''test123''"]
    by (simp add: get_max_capacity_30000)
next
  assume "length img = 30000" and "length msg200 = 200 \<and> alloc 0 200 \<and> alloc 1 30000"
  then show "encode_lsb_dct alloc (Some img) 30000 (Some msg200) 200 password =
          Some \<lparr>success = True, error_message = None, data = Some img,
                data_length = 30000, width = 0, height = 0\<rparr>"
    using encode_copies [of alloc 200 msg200 img 30000 password]
    by (simp add: get_max_capacity_30000)
qed

theorem scenario_30000_bytes_witness:
  "length (replicate 30000 (0::byte)) = 30000 \<and>
   get_max_capacity (Some (replicate 30000 0)) 30000 = 3000 \<and>
   encode_lsb_dct (\<lambda>k n. True) (Some (replicate 30000 0)) 30000
       (Some (replicate 10 1)) 10 (bytes_of ''test123'') =
     Some \<lparr>success = True, error_message = None, data = Some (replicate 30000 0),
           data_length = 30000, width = 0, height = 0\<rparr> \<and>
   encode_lsb_dct (\<lambda>k n. True) (Some (replicate 30000 0)) 30000
       (Some (replicate 200 1)) 200 (bytes_of ''test123'') =
     Some \<lparr>success = True, error_message = None, data = Some (replicate 30000 0),
           data_length = 30000, width = 0, height = 0\<rparr>"
  using scenario_30000_bytes [of "replicate 30000 0" "replicate 10 1" "\<lambda>k n. True"
      "replicate 200 1" "bytes_of ''test123''"]
  by simp

text \<open>
  C8, as the specification states it, fails for empty buffers: an empty carrier behind
  a non-\<^verbatim>\<open>NULL\<close> pointer is rejected with
  \<^verbatim>\<open>Message too large for image capacity\<close>, not with
  \<^verbatim>\<open>Invalid input data\<close>, and an empty payload is accepted.
\<close>

theorem encode_empty_not_invalid_input:
  "encode_lsb_dct (\<lambda>k n. True) (Some []) 0 (Some [1]) 1 [] =
     Some \<lparr>success = False, error_message = Some ''Message too large for image capacity'',
           data = None, data_length = 0, width = 0, height = 0\<rparr> \<and>
   encode_lsb_dct (\<lambda>k n. True) (Some (replicate 30000 0)) 30000 (Some []) 0 [] =
     Some \<lparr>success = True, error_message = None, data = Some (replicate 30000 0),
           data_length = 30000, width = 0, height = 0\<rparr>"
  using encode_too_large [of "\<lambda>k n. True" 1 "[1]" "[]" 0 "[]"]
    encode_copies [of "\<lambda>k n. True" 0 "[]" "replicate 30000 0" 30000 "[]"]
  by (simp add: get_max_capacity_30000 get_max_capacity_0 zero_result_def)

text \<open>
  C8, amended. \<open>encode_lsb_dct\<close> fails with \<^verbatim>\<open>Invalid input data\<close> whenever
  the carrier or the payload pointer is \<^verbatim>\<open>NULL\<close>, and never otherwise. A carrier
  of size 0 behind a non-\<^verbatim>\<open>NULL\<close> pointer is rejected with
  \<^verbatim>\<open>Message too large for image capacity\<close>, and a payload of length 0 behind a
  non-\<^verbatim>\<open>NULL\<close> pointer is embedded whenever the capacity is at least the 8
  bytes of header (given that the allocations succeed).
\<close>

theorem encode_invalid_input_iff_null:
  "(image_data = None \<or> message = None \<longrightarrow>
      encode_lsb_dct alloc image_data image_size message message_length password =
        Some \<lparr>success = False, error_message = Some ''Invalid input data'',
              data = None, data_length = 0, width = 0, height = 0\<rparr>) \<and>
   (encode_lsb_dct alloc (Some img) image_size (Some msg) message_length password = Some r \<longrightarrow>
      error_message r \<noteq> Some ''Invalid input data'') \<and>
   (alloc 0 message_length \<and> message_length \<le> length msg \<longrightarrow>
      encode_lsb_dct alloc (Some img) 0 (Some msg) message_length password =
        Some \<lparr>success = False,
              error_message = Some ''Message too large for image capacity'',
              data = None, data_length = 0, width = 0, height = 0\<rparr>) \<and>
   (alloc 0 0 \<and> alloc 1 image_size \<and> image_size \<le> length img \<and>
    8 \<le> get_max_capacity (Some img) image_size \<longrightarrow>
      encode_lsb_dct alloc (Some img) image_size (Some msg) 0 password =
        Some \<lparr>success = True, error_message = None, data = Some (take image_size img),
              data_length = image_size, width = 0, height = 0\<rparr>)"
proof (intro conjI impI)
  assume "image_data = None \<or> message = None"
  then show "encode_lsb_dct alloc image_data image_size message message_length password =
        Some \<lparr>success = False, error_message = Some ''Invalid input data'',
              data = None, data_length = 0, width = 0, height = 0\<rparr>"
    using encode_null [of image_data message alloc image_size message_length password]
    by (simp add: zero_result_def)
next
  assume "encode_lsb_dct alloc (Some img) image_size (Some msg) message_length password = Some r"
  then show "error_message r \<noteq> Some ''Invalid input data''"
    by (rule encode_not_invalid_input)
next
  assume "alloc 0 message_length \<and> message_length \<le> length msg"
  then show "encode_lsb_dct alloc (Some img) 0 (Some msg) message_length password =
        Some \<lparr>success = False,
              error_message = Some ''Message too large for image capacity'',
              data = None, data_length = 0, width = 0, height = 0\<rparr>"
    using encode_too_large [of alloc message_length msg img 0 password]
    by (simp add: get_max_capacity_0 zero_result_def)
next
  assume "alloc 0 0 \<and> alloc 1 image_size \<and> image_size \<le> length img \<and>
    8 \<le> get_max_capacity (Some img) image_size"
  then show "encode_lsb_dct alloc (Some img) image_size (Some msg) 0 password =
        Some \<lparr>success = True, error_message = None, data = Some (take image_size img),
              data_length = image_size, width = 0, height = 0\<rparr>"
    using encode_copies [of alloc 0 msg img image_size password] by simp
qed

theorem encode_invalid_input_iff_null_witness:
  "encode_lsb_dct (\<lambda>k n. True) None 30000 (Some [1]) 1 (bytes_of ''test123'') =
     Some \<lparr>success = False, error_message = Some ''Invalid input data'',
           data = None, data_length = 0, width = 0, height = 0\<rparr> \<and>
   encode_lsb_dct (\<lambda>k n. True) (Some (replicate 30000 0)) 30000 (Some [1]) 1
       (bytes_of ''test123'') =
     Some \<lparr>success = True, error_message = None, data = Some (replicate 30000 0),
           data_length = 30000, width = 0, height = 0\<rparr> \<and>
   encode_lsb_dct (\<lambda>k n. True) (Some (replicate 30000 0)) 0 (Some [1]) 1
       (bytes_of ''test123'') =
     Some \<lparr>success = False, error_message = Some ''Message too large for image capacity'',
           data = None, data_length = 0, width = 0, height = 0\<rparr> \<and>
   encode_lsb_dct (\<lambda>k n. True) (Some (replicate 30000 0)) 30000 (Some [1]) 0
       (bytes_of ''test123'') =
     Some \<lparr>success = True, error_message = None, data = Some (replicate 30000 0),
           data_length = 30000, width = 0, height = 0\<rparr>"
  using encode_invalid_input_iff_null [where image_data = None and message = "Some [1]"
      and alloc = "\<lambda>k n. True" and image_size = 30000 and message_length = 1
      and password = "bytes_of ''test123''" and img = "replicate 30000 0" and msg = "[1]"
      and r = "\<lparr>success = True, error_message = None, data = Some (replicate 30000 0),
           data_length = 30000, width = 0, height = 0\<rparr>"]
    encode_copies [of "\<lambda>k n. True" 1 "[1]" "replicate 30000 0" 30000 "bytes_of ''test123''"]
  by (simp add: get_max_capacity_30000)

section \<open>Properties of extraction\<close>

text \<open>
  With its allocation successful, \<open>decode_lsb_dct\<close> returns the 22 bytes of
  \<^verbatim>\<open>Decoded secret message\<close>, combined with the password by \<open>xor_encrypt\<close>, in a
  buffer of 23 bytes.
\<close>

lemma length_demo_message: "length demo_message = 22"
  by (simp add: demo_message_def)

lemma strlen_demo_message: "strlen (bytes_of demo_message) = 22"
  by (simp add: strlen_def bytes_of_def demo_message_def)

lemma decode_returns:
  "\<exists>r. decode_lsb_dct alloc (Some img) image_size password = Some r"
proof -
  have "22 \<le> length (bytes_of demo_message @ [0])"
    by (simp add: bytes_of_def length_demo_message)
  then obtain out where "xor_encrypt (bytes_of demo_message @ [0]) 22 password = Some out"
    using xor_encrypt_returns by blast
  then show ?thesis
    by (simp add: decode_lsb_dct_def strlen_demo_message)
qed

lemma decode_demo:
  assumes "alloc 0 23"
  shows "decode_lsb_dct alloc (Some img) image_size password =
     map_option (\<lambda>d. \<lparr>success = True, error_message = None, data = Some d,
           data_length = 22, width = 0, height = 0\<rparr>)
       (xor_encrypt (bytes_of demo_message @ [0]) 22 password)"
  using assms
  by (cases "xor_encrypt (bytes_of demo_message @ [0]) 22 password")
     (simp_all add: decode_lsb_dct_def zero_result_def strlen_demo_message)

lemma demo_bytes:
  "bytes_of demo_message @ [0] =
     [68, 101, 99, 111, 100, 101, 100, 32, 115, 101, 99, 114, 101, 116, 32,
      109, 101, 115, 115, 97, 103, 101, 0]"
  by (simp add: bytes_of_def demo_message_def)

lemma wrong_bytes: "bytes_of ''wrong'' = [119, 114, 111, 110, 103]"
  by (simp add: bytes_of_def)

lemma xor_wrong:
  "xor_encrypt (bytes_of demo_message @ [0]) 22 (bytes_of ''wrong'') =
     Some [51, 23, 12, 1, 3, 18, 22, 79, 29, 2, 20, 0, 10, 26, 71, 26, 23, 28,
         29, 6, 16, 23, 0]"
  unfolding demo_bytes wrong_bytes
  by (simp add: xor_encrypt_def strlen_def xor_encrypt_loop.simps)

text \<open>
  C10. For non-\<^verbatim>\<open>NULL\<close> carriers of any contents and sizes, \<open>decode_lsb_dct\<close>
  with the same password (and the same allocator behaviour) returns, and returns the
  same result, bytes and length included: the result does not depend on the carrier.
\<close>

theorem decode_ignores_carrier:
  "\<exists>r. decode_lsb_dct alloc (Some img1) size1 password = Some r \<and>
        decode_lsb_dct alloc (Some img2) size2 password = Some r"
proof -
  obtain r where "decode_lsb_dct alloc (Some img1) size1 password = Some r"
    using decode_returns by blast
  moreover have "decode_lsb_dct alloc (Some img2) size2 password =
      decode_lsb_dct alloc (Some img1) size1 password"
    by (simp add: decode_lsb_dct_def)
  ultimately show ?thesis by simp
qed

text \<open>
  C1. The round trip on the code, at a carrier of 30000 zero bytes (capacity 3000),
  the payload \<^verbatim>\<open>hi\<close> and the empty password, all allocations successful:
  embedding succeeds, and extracting from its result with the same password returns
  \<^verbatim>\<open>Decoded secret message\<close>, not the payload.
\<close>

theorem roundtrip_returns_demo_message:
  "do {
     r \<leftarrow> encode_lsb_dct (\<lambda>k n. True) (Some (replicate 30000 0)) 30000
            (Some (bytes_of ''hi'')) 2 [];
     r' \<leftarrow> decode_lsb_dct (\<lambda>k n. True) (data r) (data_length r) [];
     result_bytes r'
   } = Some (bytes_of ''Decoded secret message'') \<and>
   bytes_of ''Decoded secret message'' \<noteq> bytes_of ''hi''"
  using encode_copies [of "\<lambda>k n. True" 2 "bytes_of ''hi''" "replicate 30000 0" 30000 "[]"]
    decode_demo [of "\<lambda>k n. True" "replicate 30000 0" 30000 "[]"]
  by (simp add: get_max_capacity_30000 bytes_of_def xor_encrypt_def strlen_def
      result_bytes_def demo_message_def)

text \<open>
  C7. Extraction with the wrong password on the code, at a carrier of 30000 zero
  bytes, the passwords \<^verbatim>\<open>correct\<close> and \<^verbatim>\<open>wrong\<close>, and as payload the 22
  bytes of \<^verbatim>\<open>Decoded secret message\<close> combined with \<^verbatim>\<open>wrong\<close>: extracting
  with \<^verbatim>\<open>wrong\<close> what was embedded with \<^verbatim>\<open>correct\<close> succeeds and
  returns exactly the payload.
\<close>

theorem wrong_key_returns_payload:
  "do {
     r \<leftarrow> encode_lsb_dct (\<lambda>k n. True) (Some (replicate 30000 0)) 30000
            (Some [51, 23, 12, 1, 3, 18, 22, 79, 29, 2, 20, 0, 10, 26, 71, 26, 23, 28,
                   29, 6, 16, 23]) 22 (bytes_of ''correct'');
     r' \<leftarrow> decode_lsb_dct (\<lambda>k n. True) (data r) (data_length r) (bytes_of ''wrong'');
     result_bytes r'
   } = Some [51, 23, 12, 1, 3, 18, 22, 79, 29, 2, 20, 0, 10, 26, 71, 26, 23, 28,
             29, 6, 16, 23] \<and>
   bytes_of ''correct'' \<noteq> bytes_of ''wrong''"
  using encode_copies [of "\<lambda>k n. True" 22
      "[51, 23, 12, 1, 3, 18, 22, 79, 29, 2, 20, 0, 10, 26, 71, 26, 23, 28, 29, 6, 16, 23]"
      "replicate 30000 0" 30000 "bytes_of ''correct''"]
    decode_demo [of "\<lambda>k n. True" "replicate 30000 0" 30000 "bytes_of ''wrong''"]
  by (simp add: get_max_capacity_30000 xor_wrong result_bytes_def)
     (simp add: bytes_of_def)

section \<open>Properties of the block transform\<close>

subsection \<open>The value of \<^verbatim>\<open>M_PI\<close>\<close>

text \<open>
  \<open>pi\<close> lies between two of its continued-fraction convergents: a sixth of each is
  compared with \<open>pi / 6\<close> through its sine, computed from eight terms of the series.
  \<^verbatim>\<open>M_PI\<close> lies between the same two fractions.
\<close>

lemma sin_poly_16:
  "(\<Sum>m<16. sin_coeff m * x ^ m) =
     x - x^3/6 + x^5/120 - x^7/5040 + x^9/362880 - x^11/39916800 + x^13/6227020800
     - x^15/1307674368000"
  for x :: real
  by (simp add: sin_coeff_def lessThan_nat_numeral sum.lessThan_Suc fact_numeral)

lemma sin_low: "sin (4272943 / 8160720 :: real) < 1 / 2"
proof -
  let ?x = "4272943 / 8160720 :: real"
  have "\<bar>sin ?x - (\<Sum>m<16. sin_coeff m * ?x ^ m)\<bar> \<le> inverse (fact 16) * \<bar>?x\<bar> ^ 16"
    by (rule Maclaurin_sin_bound)
  moreover have "(\<Sum>m<16. sin_coeff m * ?x ^ m) + inverse (fact 16) * \<bar>?x\<bar> ^ 16 < 1 / 2"
    unfolding sin_poly_16 by (simp add: fact_numeral power_divide)
  ultimately show ?thesis by linarith
qed

lemma sin_high: "1 / 2 < sin (1146408 / 2189478 :: real)"
proof -
  let ?x = "1146408 / 2189478 :: real"
  have "\<bar>sin ?x - (\<Sum>m<16. sin_coeff m * ?x ^ m)\<bar> \<le> inverse (fact 16) * \<bar>?x\<bar> ^ 16"
    by (rule Maclaurin_sin_bound)
  moreover have "1 / 2 < (\<Sum>m<16. sin_coeff m * ?x ^ m) - inverse (fact 16) * \<bar>?x\<bar> ^ 16"
    unfolding sin_poly_16 by (simp add: fact_numeral power_divide)
  ultimately show ?thesis by linarith
qed

lemma pi_lower: "4272943 / 1360120 < pi"
proof (rule ccontr)
  assume "\<not> 4272943 / 1360120 < pi"
  then have le: "pi / 6 \<le> 4272943 / 8160720" by simp
  have "- (pi / 2) \<le> pi / 6" using pi_ge_two by linarith
  moreover have "(4272943 / 8160720 :: real) \<le> pi / 2" using pi_ge_two by linarith
  ultimately have "sin (pi / 6) \<le> sin (4272943 / 8160720)"
    using le by (intro sin_monotone_2pi_le)
  with sin_low show False by (simp add: sin_30)
qed

lemma pi_upper: "pi < 1146408 / 364913"
proof (rule ccontr)
  assume "\<not> pi < 1146408 / 364913"
  then have le: "1146408 / 2189478 \<le> pi / 6" by simp
  have "- (pi / 2) \<le> (1146408 / 2189478 :: real)" using pi_ge_two by linarith
  moreover have "pi / 6 \<le> pi / 2" using pi_ge_two by linarith
  ultimately have "sin (1146408 / 2189478) \<le> sin (pi / 6)"
    using le by (intro sin_monotone_2pi_le)
  with sin_high show False by (simp add: sin_30)
qed

lemma M_PI_close: "\<bar>884279719003555 / 2 ^ 48 - pi\<bar> \<le> 2 / 10 ^ 12"
proof -
  have "(4272943 / 1360120 :: real) < pi" by (rule pi_lower)
  moreover have "pi < (1146408 / 364913 :: real)" by (rule pi_upper)
  moreover have "(1146408 / 364913 :: real) - 2 / 10 ^ 12 \<le> 884279719003555 / 2 ^ 48"
    by simp
  moreover have "(884279719003555 / 2 ^ 48 :: real) \<le> 4272943 / 1360120 + 2 / 10 ^ 12"
    by simp
  ultimately show ?thesis by linarith
qed

subsection \<open>The exact transforms are inverse to each other\<close>

text \<open>
  The cosines of the transform are orthogonal: the sum of \<open>cos (u * t)\<close> over
  \<open>u = 1..7\<close> telescopes after multiplication by \<open>2 * sin (t / 2)\<close>.
\<close>

lemma two_sin_cos: "2 * sin w * cos z = sin (w + z) - sin (z - w)" for w z :: real
  by (simp add: sin_add sin_diff)

lemma cos_sum_telescope:
  "2 * sin (t / 2) * (\<Sum>u = 1..N. cos (real u * t)) = sin ((real N + 1 / 2) * t) - sin (t / 2)"
proof (induction N)
  case 0
  show ?case by simp
next
  case (Suc N)
  have e1: "t / 2 + real (Suc N) * t = (real (Suc N) + 1 / 2) * t"
    by (simp add: algebra_simps)
  have e2: "real (Suc N) * t - t / 2 = (real N + 1 / 2) * t"
    by (simp add: algebra_simps)
  have step: "2 * sin (t / 2) * cos (real (Suc N) * t) =
      sin ((real (Suc N) + 1 / 2) * t) - sin ((real N + 1 / 2) * t)"
    using two_sin_cos [of "t / 2" "real (Suc N) * t"] by (simp only: e1 e2)
  have "2 * sin (t / 2) * (\<Sum>u = 1..Suc N. cos (real u * t)) =
      2 * sin (t / 2) * (\<Sum>u = 1..N. cos (real u * t)) +
      2 * sin (t / 2) * cos (real (Suc N) * t)"
    by (simp add: algebra_simps)
  also have "\<dots> = sin ((real N + 1 / 2) * t) - sin (t / 2) +
      (sin ((real (Suc N) + 1 / 2) * t) - sin ((real N + 1 / 2) * t))"
    by (simp only: Suc.IH step)
  finally show ?case by simp
qed

lemma cos_sum_eighths:
  assumes "0 < k" and "k < 16"
  shows "(\<Sum>u = 1..7. cos (real u * (real k * pi / 8))) = - (1 + (- 1) ^ k) / 2"
proof -
  define phi where "phi = real k * pi / 16"
  define S where "S = (\<Sum>u = 1..7. cos (real u * (real k * pi / 8)))"
  have pos: "0 < sin phi"
  proof (rule sin_gt_zero)
    show "0 < phi" using assms by (simp add: phi_def)
    have "real k < 16" using assms by simp
    then have "real k * pi < 16 * pi" by (simp add: pi_gt_zero)
    then show "phi < pi" by (simp add: phi_def)
  qed
  have e1: "(real 7 + 1 / 2) * (real k * pi / 8) = real k * pi - phi"
    by (simp add: phi_def algebra_simps)
  have e2: "real k * pi / 8 / 2 = phi" by (simp add: phi_def)
  have "sin (real k * pi - phi) = - ((- 1) ^ k * sin phi)"
    by (simp add: sin_diff)
  with cos_sum_telescope [of "real k * pi / 8" 7]
  have "2 * sin phi * S = - ((- 1) ^ k * sin phi) - sin phi"
    by (simp only: e1 e2 S_def)
  also have "\<dots> = 2 * sin phi * (- (1 + (- 1) ^ k) / 2)"
    by (simp add: algebra_simps)
  finally have "S = - (1 + (- 1) ^ k) / 2" using pos by simp
  then show ?thesis by (simp only: S_def)
qed

lemma sum_lessThan_8_split: "(\<Sum>u<8. f u) = f 0 + (\<Sum>u = 1..7. f u)" for f :: "nat \<Rightarrow> real"
proof -
  have "{..<8::nat} = insert 0 {1..7}" by auto
  then show ?thesis by simp
qed

lemma dct_cos_product:
  assumes "x' \<le> x"
  shows "dct_cos x u * dct_cos x' u =
     (cos (real u * (real (x - x') * pi / 8)) + cos (real u * (real (x + x' + 1) * pi / 8))) / 2"
proof -
  define a where "a = real ((2 * x + 1) * u) * pi / 16"
  define b where "b = real ((2 * x' + 1) * u) * pi / 16"
  have d: "a - b = real u * (real (x - x') * pi / 8)"
    using assms by (simp add: a_def b_def of_nat_diff field_simps)
  have s: "a + b = real u * (real (x + x' + 1) * pi / 8)"
    by (simp add: a_def b_def field_simps)
  have "cos a * cos b = (cos (a - b) + cos (a + b)) / 2" by (rule cos_times_cos)
  then show ?thesis by (simp only: d s dct_cos_def a_def [symmetric] b_def [symmetric])
qed

lemma dct_cos_orthogonal_le:
  assumes "x' \<le> x" and "x < 8"
  shows "(\<Sum>u<8. (dct_scale u)\<^sup>2 * dct_cos x u * dct_cos x' u) = (if x = x' then 4 else 0)"
proof -
  define m where "m = x - x'"
  define n where "n = x + x' + 1"
  define Dm where "Dm = (\<Sum>u = 1..7. cos (real u * (real m * pi / 8)))"
  define Dn where "Dn = (\<Sum>u = 1..7. cos (real u * (real n * pi / 8)))"
  have n: "0 < n" "n < 16" using assms by (simp_all add: n_def)
  have n_eq: "n = m + (2 * x' + 1)" using assms by (simp add: n_def m_def)
  have Dn: "Dn = - (1 + (- 1) ^ n) / 2"
    unfolding Dn_def using n by (rule cos_sum_eighths)
  have zero: "(dct_scale 0)\<^sup>2 * dct_cos x 0 * dct_cos x' 0 = 1 / 2"
    by (simp add: dct_scale_def dct_cos_def power2_eq_square)
  have "(\<Sum>u = 1..7. (dct_scale u)\<^sup>2 * dct_cos x u * dct_cos x' u) =
      (\<Sum>u = 1..7. (cos (real u * (real m * pi / 8)) + cos (real u * (real n * pi / 8))) / 2)"
  proof (rule sum.cong)
    fix u :: nat assume "u \<in> {1..7}"
    then have "dct_scale u = 1" by (simp add: dct_scale_def)
    then show "(dct_scale u)\<^sup>2 * dct_cos x u * dct_cos x' u =
        (cos (real u * (real m * pi / 8)) + cos (real u * (real n * pi / 8))) / 2"
      using dct_cos_product [OF assms(1), of u] by (simp add: m_def n_def)
  qed simp
  also have "\<dots> = (Dm + Dn) / 2"
    unfolding Dm_def Dn_def by (simp add: sum.distrib sum_divide_distrib [symmetric])
  finally have rest: "(\<Sum>u = 1..7. (dct_scale u)\<^sup>2 * dct_cos x u * dct_cos x' u) = (Dm + Dn) / 2" .
  have total: "(\<Sum>u<8. (dct_scale u)\<^sup>2 * dct_cos x u * dct_cos x' u) = 1 / 2 + (Dm + Dn) / 2"
    by (simp only: sum_lessThan_8_split zero rest)
  show ?thesis
  proof (cases "x = x'")
    case True
    then have "m = 0" by (simp add: m_def)
    then have "Dm = 7" by (simp add: Dm_def)
    moreover from True have "odd n" by (simp add: n_def)
    then have "Dn = 0" by (simp add: Dn)
    ultimately show ?thesis using True total by simp
  next
    case False
    with assms have m: "0 < m" "m < 16" by (simp_all add: m_def)
    have Dm: "Dm = - (1 + (- 1) ^ m) / 2"
      unfolding Dm_def using m by (rule cos_sum_eighths)
    have "(- 1 :: real) ^ n = - ((- 1) ^ m)"
      by (simp add: n_eq power_add)
    with Dm Dn have "Dm + Dn = - 1" by simp
    with False total show ?thesis by simp
  qed
qed

lemma dct_cos_orthogonal:
  assumes "x < 8" and "x' < 8"
  shows "(\<Sum>u<8. (dct_scale u)\<^sup>2 * dct_cos x u * dct_cos x' u) = (if x = x' then 4 else 0)"
proof (cases "x' \<le> x")
  case True
  then show ?thesis using assms(1) by (rule dct_cos_orthogonal_le)
next
  case False
  then have "x \<le> x'" by simp
  from dct_cos_orthogonal_le [OF this assms(2)]
  have "(\<Sum>u<8. (dct_scale u)\<^sup>2 * dct_cos x' u * dct_cos x u) = (if x' = x then 4 else 0)" .
  moreover have "(\<Sum>u<8. (dct_scale u)\<^sup>2 * dct_cos x' u * dct_cos x u) =
      (\<Sum>u<8. (dct_scale u)\<^sup>2 * dct_cos x u * dct_cos x' u)"
    by (rule sum.cong) (simp_all add: mult_ac)
  ultimately show ?thesis by auto
qed

lemma sum4_factor:
  fixes h :: "'c \<Rightarrow> 'd \<Rightarrow> real"
  shows "(\<Sum>u\<in>A. \<Sum>v\<in>B. \<Sum>x\<in>C. \<Sum>y\<in>D. h x y * a u x * b v y) =
     (\<Sum>x\<in>C. \<Sum>y\<in>D. h x y * (\<Sum>u\<in>A. a u x) * (\<Sum>v\<in>B. b v y))"
proof -
  have "(\<Sum>u\<in>A. \<Sum>v\<in>B. \<Sum>x\<in>C. \<Sum>y\<in>D. h x y * a u x * b v y) =
      (\<Sum>u\<in>A. \<Sum>x\<in>C. \<Sum>v\<in>B. \<Sum>y\<in>D. h x y * a u x * b v y)"
    by (rule sum.cong [OF refl]) (rule sum.swap)
  also have "\<dots> = (\<Sum>x\<in>C. \<Sum>u\<in>A. \<Sum>v\<in>B. \<Sum>y\<in>D. h x y * a u x * b v y)"
    by (rule sum.swap)
  also have "\<dots> = (\<Sum>x\<in>C. \<Sum>u\<in>A. \<Sum>y\<in>D. \<Sum>v\<in>B. h x y * a u x * b v y)"
    by (intro sum.cong refl sum.swap)
  also have "\<dots> = (\<Sum>x\<in>C. \<Sum>y\<in>D. \<Sum>u\<in>A. \<Sum>v\<in>B. h x y * a u x * b v y)"
    by (intro sum.cong refl sum.swap)
  also have "\<dots> = (\<Sum>x\<in>C. \<Sum>y\<in>D. h x y * (\<Sum>u\<in>A. a u x) * (\<Sum>v\<in>B. b v y))"
  proof (intro sum.cong refl)
    fix x y
    have "h x y * (\<Sum>u\<in>A. a u x) * (\<Sum>v\<in>B. b v y) =
        h x y * ((\<Sum>u\<in>A. a u x) * (\<Sum>v\<in>B. b v y))" by simp
    also have "\<dots> = h x y * (\<Sum>u\<in>A. \<Sum>v\<in>B. a u x * b v y)"
      by (simp only: sum_product)
    also have "\<dots> = (\<Sum>u\<in>A. \<Sum>v\<in>B. h x y * a u x * b v y)"
      by (simp add: sum_distrib_left mult.assoc)
    finally show "(\<Sum>u\<in>A. \<Sum>v\<in>B. h x y * a u x * b v y) =
        h x y * (\<Sum>u\<in>A. a u x) * (\<Sum>v\<in>B. b v y)" by simp
  qed
  finally show ?thesis .
qed

lemma sum_pick:
  fixes g :: "nat \<Rightarrow> real"
  assumes "y < n"
  shows "(\<Sum>y'<n. g y' * (if y = y' then c else 0)) = g y * c"
proof -
  have "(\<Sum>y'<n. g y' * (if y = y' then c else 0)) = (\<Sum>y'<n. if y' = y then g y * c else 0)"
    by (intro sum.cong refl) auto
  also have "\<dots> = g y * c" using assms by (simp add: sum.delta)
  finally show ?thesis .
qed

lemma idct_dct_exact:
  assumes "x < 8" and "y < 8"
  shows "idct_exact (dct_exact M) x y = M x y"
proof -
  define a where "a u x' = (dct_scale u)\<^sup>2 * dct_cos x u * dct_cos x' u" for u x'
  define b where "b v y' = (dct_scale v)\<^sup>2 * dct_cos y v * dct_cos y' v" for v y'
  have a: "(\<Sum>u<8. a u x') = (if x = x' then 4 else 0)" if "x' < 8" for x'
    unfolding a_def using assms(1) that by (rule dct_cos_orthogonal)
  have b: "(\<Sum>v<8. b v y') = (if y = y' then 4 else 0)" if "y' < 8" for y'
    unfolding b_def using assms(2) that by (rule dct_cos_orthogonal)
  have "(\<Sum>u<8. \<Sum>v<8. dct_scale u * dct_scale v * dct_exact M u v * dct_cos x u * dct_cos y v) =
      (\<Sum>u<8. \<Sum>v<8. \<Sum>x'<8. \<Sum>y'<8. M x' y' / 4 * a u x' * b v y')"
    by (intro sum.cong refl)
       (simp add: dct_exact_def a_def b_def sum_distrib_left power2_eq_square mult_ac)
  also have "\<dots> = (\<Sum>x'<8. \<Sum>y'<8. M x' y' / 4 * (\<Sum>u<8. a u x') * (\<Sum>v<8. b v y'))"
    by (rule sum4_factor)
  also have "\<dots> = (\<Sum>x'<8. \<Sum>y'<8. M x' y' / 4 * (if x = x' then 4 else 0) * (if y = y' then 4 else 0))"
    by (intro sum.cong refl) (simp add: a b)
  also have "\<dots> = (\<Sum>x'<8. M x' y * (if x = x' then 4 else 0))"
  proof (intro sum.cong refl)
    fix x'
    have "(\<Sum>y'<8. M x' y' / 4 * (if x = x' then 4 else 0) * (if y = y' then 4 else 0)) =
        M x' y / 4 * (if x = x' then 4 else 0) * 4"
      using assms(2)
      by (rule sum_pick [where g = "\<lambda>y'. M x' y' / 4 * (if x = x' then 4 else 0)"])
    also have "\<dots> = M x' y * (if x = x' then 4 else 0)" by simp
    finally show "(\<Sum>y'<8. M x' y' / 4 * (if x = x' then 4 else 0) * (if y = y' then 4 else 0)) =
        M x' y * (if x = x' then 4 else 0)" .
  qed
  also have "\<dots> = M x y * 4"
    using assms(1) by (rule sum_pick)
  finally show ?thesis by (simp add: idct_exact_def)
qed

subsection \<open>Rounding errors\<close>

text \<open>
  The analysis works with a rounding of relative error \<open>1 / 10 ^ 15\<close> and absolute
  error \<open>\<eta>\<close> on the range up to \<open>L\<close>, and with \<open>fcos\<close> and \<open>fsqrt\<close> accurate to
  \<open>1 / 10 ^ 15\<close>; entries are bounded by \<open>B\<close>. Every bound is linear in \<open>B\<close> and \<open>\<eta>\<close>.
\<close>

lemma cos_lipschitz: "\<bar>cos a - cos b\<bar> \<le> \<bar>a - b\<bar>" for a b :: real
proof -
  define p where "p = sin ((a + b) / 2)"
  define q where "q = sin ((b - a) / 2)"
  have p: "\<bar>p\<bar> \<le> 1" by (simp add: p_def)
  have q: "\<bar>q\<bar> \<le> \<bar>(b - a) / 2\<bar>" unfolding q_def by (rule abs_sin_x_le_abs_x)
  have "cos a - cos b = 2 * p * q" unfolding p_def q_def by (rule cos_diff_cos)
  then have "\<bar>cos a - cos b\<bar> = 2 * (\<bar>p\<bar> * \<bar>q\<bar>)" by (simp add: abs_mult)
  also have "\<bar>p\<bar> * \<bar>q\<bar> \<le> 1 * \<bar>(b - a) / 2\<bar>"
    using p q by (intro mult_mono) simp_all
  finally show ?thesis by simp
qed

lemma mult_close:
  fixes a a0 b b0 :: real
  assumes "\<bar>a - a0\<bar> \<le> ea" and "\<bar>a0\<bar> \<le> A0" and "\<bar>b - b0\<bar> \<le> eb" and "\<bar>b0\<bar> \<le> B0"
  shows "\<bar>a * b - a0 * b0\<bar> \<le> ea * (B0 + eb) + A0 * eb"
    and "\<bar>a * b\<bar> \<le> (A0 + ea) * (B0 + eb)"
proof -
  have ea: "0 \<le> ea" and eb: "0 \<le> eb" and A0: "0 \<le> A0" and B0: "0 \<le> B0"
    using assms by linarith+
  have b: "\<bar>b\<bar> \<le> B0 + eb" using assms by linarith
  have a: "\<bar>a\<bar> \<le> A0 + ea" using assms by linarith
  have "a * b - a0 * b0 = (a - a0) * b + a0 * (b - b0)" by (simp add: algebra_simps)
  then have "\<bar>a * b - a0 * b0\<bar> \<le> \<bar>a - a0\<bar> * \<bar>b\<bar> + \<bar>a0\<bar> * \<bar>b - b0\<bar>"
    by (metis abs_mult abs_triangle_ineq)
  also have "\<dots> \<le> ea * (B0 + eb) + A0 * eb"
    by (intro add_mono mult_mono assms b) (use ea eb A0 B0 in simp_all)
  finally show "\<bar>a * b - a0 * b0\<bar> \<le> ea * (B0 + eb) + A0 * eb" .
  have "\<bar>a * b\<bar> = \<bar>a\<bar> * \<bar>b\<bar>" by (rule abs_mult)
  also have "\<dots> \<le> (A0 + ea) * (B0 + eb)"
    by (intro mult_mono a b) (use ea eb A0 B0 in simp_all)
  finally show "\<bar>a * b\<bar> \<le> (A0 + ea) * (B0 + eb)" .
qed

lemma rnd_mult_close:
  fixes a a0 b b0 :: real
  assumes R: "\<And>z. \<bar>z\<bar> \<le> L \<Longrightarrow> \<bar>rnd z - z\<bar> \<le> \<bar>z\<bar> / 1000000000000000 + \<eta>"
    and "\<bar>a - a0\<bar> \<le> ea" and "\<bar>a0\<bar> \<le> A0" and "\<bar>b - b0\<bar> \<le> eb" and "\<bar>b0\<bar> \<le> B0"
    and "(A0 + ea) * (B0 + eb) \<le> L"
  shows "\<bar>rnd (a * b) - a0 * b0\<bar> \<le>
      ea * (B0 + eb) + A0 * eb + (A0 + ea) * (B0 + eb) / 1000000000000000 + \<eta>"
proof -
  define X where "X = a * b"
  define Y where "Y = a0 * b0"
  define P where "P = ea * (B0 + eb) + A0 * eb"
  define Q where "Q = (A0 + ea) * (B0 + eb)"
  have 1: "\<bar>X - Y\<bar> \<le> P" and 2: "\<bar>X\<bar> \<le> Q"
    unfolding X_def Y_def P_def Q_def using assms(2-5) by (rule mult_close)+
  from 2 assms(6) have "\<bar>X\<bar> \<le> L" unfolding Q_def by linarith
  then have "\<bar>rnd X - X\<bar> \<le> \<bar>X\<bar> / 1000000000000000 + \<eta>" by (rule R)
  with 1 2 have "\<bar>rnd X - Y\<bar> \<le> P + Q / 1000000000000000 + \<eta>" by linarith
  then show ?thesis unfolding X_def Y_def P_def Q_def .
qed

lemma fold_rnd_close:
  fixes t t0 :: "'i \<Rightarrow> real"
  assumes R: "\<And>z. \<bar>z\<bar> \<le> L \<Longrightarrow> \<bar>rnd z - z\<bar> \<le> \<bar>z\<bar> / 1000000000000000 + \<eta>"
    and e: "\<And>i. i \<in> set is \<Longrightarrow> \<bar>t i - t0 i\<bar> \<le> e"
    and T: "\<And>i. i \<in> set is \<Longrightarrow> \<bar>t0 i\<bar> \<le> T"
    and d: "e + S / 1000000000000000 + \<eta> \<le> d" and T0: "0 \<le> T" and d0: "0 \<le> d"
    and \<eta>0: "0 \<le> \<eta>"
    and start: "\<bar>s - s0\<bar> \<le> E"
    and room: "\<bar>s0\<bar> + real (length is) * (T + d) + E \<le> S" and L: "S \<le> L"
  shows "\<bar>fold (\<lambda>i acc. rnd (acc + t i)) is s - (s0 + sum_list (map t0 is))\<bar>
      \<le> E + real (length is) * d"
  using e T start room
proof (induction "is" arbitrary: s s0 E)
  case Nil
  then show ?case by simp
next
  case (Cons i "is")
  define n where "n = real (length is)"
  define W where "W = n * (T + d)"
  have n0: "0 \<le> W" unfolding W_def n_def using T0 d0 by simp
  have len: "real (length (i # is)) * (T + d) = W + (T + d)"
    by (simp add: W_def n_def algebra_simps)
  have ei: "\<bar>t i - t0 i\<bar> \<le> e" and Ti: "\<bar>t0 i\<bar> \<le> T"
    using Cons.prems(1,2) by simp_all
  have room: "\<bar>s0\<bar> + (W + (T + d)) + E \<le> S"
    using Cons.prems(4) by (simp only: len)
  have E0: "0 \<le> E" using Cons.prems(3) by linarith
  have mag: "\<bar>s + t i\<bar> \<le> S"
    using Cons.prems(3) ei Ti room n0 d d0 T0 \<eta>0 by linarith
  define X where "X = s + t i"
  have magX: "\<bar>X\<bar> \<le> S" using mag by (simp only: X_def)
  with L have "\<bar>X\<bar> \<le> L" by linarith
  then have "\<bar>rnd X - X\<bar> \<le> \<bar>X\<bar> / 1000000000000000 + \<eta>"
    by (rule R)
  with magX have r: "\<bar>rnd X - X\<bar> \<le> S / 1000000000000000 + \<eta>" by linarith
  have x: "\<bar>X - (s0 + t0 i)\<bar> \<le> E + e"
    unfolding X_def using Cons.prems(3) ei by linarith
  from r x d have "\<bar>rnd X - (s0 + t0 i)\<bar> \<le> E + d" by linarith
  then have step: "\<bar>rnd (s + t i) - (s0 + t0 i)\<bar> \<le> E + d" by (simp only: X_def)
  have "\<bar>s0 + t0 i\<bar> + W + (E + d) \<le> S"
    using room Ti by linarith
  then have room': "\<bar>s0 + t0 i\<bar> + real (length is) * (T + d) + (E + d) \<le> S"
    by (simp only: W_def n_def)
  have "\<bar>fold (\<lambda>i acc. rnd (acc + t i)) is (rnd (s + t i)) -
      (s0 + t0 i + sum_list (map t0 is))\<bar> \<le> (E + d) + real (length is) * d"
    using Cons.prems(1,2) step room'
    by (intro Cons.IH) simp_all
  moreover have "real (length (i # is)) * d = real (length is) * d + d"
    by (simp add: algebra_simps)
  ultimately show ?case by (simp add: add.assoc)
qed

lemma fold_product:
  "fold (\<lambda>x. fold (\<lambda>y. f x y) ys) xs s = fold (\<lambda>p. f (fst p) (snd p)) (List.product xs ys) s"
proof (induction xs arbitrary: s)
  case Nil
  show ?case by simp
next
  case (Cons x xs)
  have "fold (\<lambda>p. f (fst p) (snd p)) (map (Pair x) ys) s = fold (\<lambda>y. f x y) ys s"
    by (simp add: fold_map comp_def)
  then show ?case by (simp add: Cons.IH)
qed

lemma sum_list_product:
  fixes g :: "'a \<times> 'b \<Rightarrow> real"
  shows "sum_list (map g (List.product xs ys)) = (\<Sum>x\<leftarrow>xs. \<Sum>y\<leftarrow>ys. g (x, y))"
  by (induction xs) (simp_all add: comp_def)

lemma sum_list_upt_8: "(\<Sum>x\<leftarrow>[0..<8]. h x) = (\<Sum>x<8. h x)" for h :: "nat \<Rightarrow> real"
  by (simp add: interv_sum_list_conv_sum_set_nat atLeast0LessThan)

lemma double_loop_close:
  fixes t t0 :: "nat \<Rightarrow> nat \<Rightarrow> real"
  assumes R: "\<And>z. \<bar>z\<bar> \<le> L \<Longrightarrow> \<bar>rnd z - z\<bar> \<le> \<bar>z\<bar> / 1000000000000000 + \<eta>"
    and e: "\<And>x y. x < 8 \<Longrightarrow> y < 8 \<Longrightarrow> \<bar>t x y - t0 x y\<bar> \<le> e"
    and T: "\<And>x y. x < 8 \<Longrightarrow> y < 8 \<Longrightarrow> \<bar>t0 x y\<bar> \<le> T"
    and d: "e + S / 1000000000000000 + \<eta> \<le> d" and T0: "0 \<le> T" and d0: "0 \<le> d"
    and \<eta>0: "0 \<le> \<eta>"
    and room: "64 * (T + d) \<le> S" and L: "S \<le> L"
  shows "\<bar>fold (\<lambda>x. fold (\<lambda>y acc. rnd (acc + t x y)) [0..<8]) [0..<8] 0
      - (\<Sum>x<8. \<Sum>y<8. t0 x y)\<bar> \<le> 64 * d"
proof -
  let ?ps = "List.product [0..<8] [0..<8 :: nat]"
  have len: "length ?ps = 64" by simp
  have "\<bar>fold (\<lambda>p acc. rnd (acc + t (fst p) (snd p))) ?ps 0
      - (0 + sum_list (map (\<lambda>p. t0 (fst p) (snd p)) ?ps))\<bar> \<le> 0 + real (length ?ps) * d"
  proof (rule fold_rnd_close [where T = T and e = e and S = S and L = L and \<eta> = \<eta>])
    show "\<bar>z\<bar> \<le> L \<Longrightarrow> \<bar>rnd z - z\<bar> \<le> \<bar>z\<bar> / 1000000000000000 + \<eta>" for z by (rule R)
    show "\<bar>t (fst p) (snd p) - t0 (fst p) (snd p)\<bar> \<le> e" if "p \<in> set ?ps" for p
      using that by (intro e) auto
    show "\<bar>t0 (fst p) (snd p)\<bar> \<le> T" if "p \<in> set ?ps" for p
      using that by (intro T) auto
    show "\<bar>0\<bar> + real (length ?ps) * (T + d) + 0 \<le> S"
      using room by simp
    show "\<bar>0 - 0\<bar> \<le> (0::real)" by simp
  qed (fact d T0 d0 \<eta>0 L)+
  moreover have "fold (\<lambda>x. fold (\<lambda>y acc. rnd (acc + t x y)) [0..<8]) [0..<8] 0 =
      fold (\<lambda>p acc. rnd (acc + t (fst p) (snd p))) ?ps 0"
    by (rule fold_product [where f = "\<lambda>x y acc. rnd (acc + t x y)"])
  moreover have "sum_list (map (\<lambda>p. t0 (fst p) (snd p)) ?ps) = (\<Sum>x<8. \<Sum>y<8. t0 x y)"
    by (simp only: sum_list_product sum_list_upt_8 fst_conv snd_conv)
  ultimately show ?thesis by (simp only: len)
qed

lemma M_PI_error: "\<bar>M_PI - pi\<bar> \<le> 2 / 1000000000000"
  using M_PI_close by (simp add: M_PI_def)

lemma pi_less_315: "pi < 315 / 100"
  using pi_upper by simp

lemma inverse_close:
  fixes a b :: real
  assumes "1 \<le> a" and "1 \<le> b"
  shows "\<bar>1 / a - 1 / b\<bar> \<le> \<bar>a - b\<bar>"
proof -
  have ab: "1 \<le> a * b" using assms by (metis mult_mono mult_1 zero_le_one order_trans)
  have "1 / a - 1 / b = (b - a) / (a * b)"
    using assms by (simp add: field_simps)
  then have "\<bar>1 / a - 1 / b\<bar> = \<bar>a - b\<bar> / (a * b)"
    using ab by (simp add: abs_minus_commute)
  also have "\<dots> \<le> \<bar>a - b\<bar> / 1"
    using ab by (intro divide_left_mono) simp_all
  finally show ?thesis by simp
qed

lemma cosine_close:
  assumes R: "\<And>z. \<bar>z\<bar> \<le> L \<Longrightarrow> \<bar>rnd z - z\<bar> \<le> \<bar>z\<bar> / 1000000000000000 + \<eta>"
    and C: "\<And>z. \<bar>z\<bar> \<le> 21 \<Longrightarrow> \<bar>fcos z - cos z\<bar> \<le> 1 / 1000000000000000"
    and \<eta>0: "0 \<le> \<eta>" and \<eta>1: "\<eta> \<le> 1 / 1000000000000000" and L: "400 \<le> L"
    and x: "x < 8" and u: "u < 8"
  shows "\<bar>cosine rnd fcos x u - dct_cos x u\<bar> \<le> 3 / 100000000000"
proof -
  define k where "k = real ((2 * x + 1) * u)"
  define z1 where "z1 = rnd (k * M_PI)"
  define z2 where "z2 = rnd (z1 / 16)"
  define kp where "kp = k * pi"
  have "(2 * x + 1) * u \<le> 15 * 7"
    using x u by (intro mult_le_mono) simp_all
  then have "real ((2 * x + 1) * u) \<le> real (15 * 7)"
    by (rule iffD2 [OF of_nat_le_iff])
  then have k: "0 \<le> k" "k \<le> 105" by (simp_all add: k_def)
  have "\<bar>k * M_PI - kp\<bar> = \<bar>k\<bar> * \<bar>M_PI - pi\<bar>"
    unfolding kp_def by (simp add: abs_mult [symmetric] right_diff_distrib)
  also have "\<dots> \<le> 105 * (2 / 1000000000000)"
    using k M_PI_error by (intro mult_mono) simp_all
  finally have e0: "\<bar>k * M_PI - kp\<bar> \<le> 105 * (2 / 1000000000000)" .
  have "k * pi \<le> 105 * (315 / 100)"
    using k pi_less_315 by (intro mult_mono) simp_all
  moreover have "0 \<le> k * pi" using k by simp
  ultimately have kp: "0 \<le> kp" "kp \<le> 105 * (315 / 100)" by (simp_all add: kp_def)
  have m0: "\<bar>k * M_PI\<bar> \<le> 331" using e0 kp by linarith
  with L have "\<bar>k * M_PI\<bar> \<le> L" by linarith
  then have "\<bar>z1 - k * M_PI\<bar> \<le> \<bar>k * M_PI\<bar> / 1000000000000000 + \<eta>"
    unfolding z1_def by (rule R)
  with m0 \<eta>1 have r1: "\<bar>z1 - k * M_PI\<bar> \<le> 332 / 1000000000000000" by linarith
  from r1 e0 have e1: "\<bar>z1 - kp\<bar> \<le> 22 / 100000000000" by linarith
  then have e1': "\<bar>z1 / 16 - kp / 16\<bar> \<le> 22 / 100000000000 / 16" by linarith
  have m1: "\<bar>z1 / 16\<bar> \<le> 21" using e1 kp by linarith
  with L have "\<bar>z1 / 16\<bar> \<le> L" by linarith
  then have "\<bar>z2 - z1 / 16\<bar> \<le> \<bar>z1 / 16\<bar> / 1000000000000000 + \<eta>"
    unfolding z2_def by (rule R)
  with m1 \<eta>1 have r2: "\<bar>z2 - z1 / 16\<bar> \<le> 22 / 1000000000000000" by linarith
  from r2 e1' have e2: "\<bar>z2 - kp / 16\<bar> \<le> 2 / 100000000000" by linarith
  have m2: "\<bar>z2\<bar> \<le> 21" using e2 kp by linarith
  then have c1: "\<bar>fcos z2 - cos z2\<bar> \<le> 1 / 1000000000000000" by (rule C)
  have "\<bar>cos z2 - cos (kp / 16)\<bar> \<le> \<bar>z2 - kp / 16\<bar>" by (rule cos_lipschitz)
  with e2 c1 have "\<bar>fcos z2 - cos (kp / 16)\<bar> \<le> 3 / 100000000000" by linarith
  then show ?thesis
    by (simp only: cosine_def dct_cos_def z2_def z1_def k_def kp_def)
qed

lemma sqrt2_ge: "14 / 10 \<le> sqrt 2"
  by (rule real_le_rsqrt) (simp add: power2_eq_square)

lemma dct_scale_bound: "\<bar>dct_scale u\<bar> \<le> 1"
proof -
  have "1 \<le> sqrt 2" using sqrt2_ge by linarith
  then have "1 / sqrt 2 \<le> 1" by simp
  then show ?thesis by (simp add: dct_scale_def)
qed

lemma coefficient_close:
  assumes R: "\<And>z. \<bar>z\<bar> \<le> L \<Longrightarrow> \<bar>rnd z - z\<bar> \<le> \<bar>z\<bar> / 1000000000000000 + \<eta>"
    and S: "\<bar>fsqrt 2 - sqrt 2\<bar> \<le> 1 / 1000000000000000"
    and \<eta>0: "0 \<le> \<eta>" and \<eta>1: "\<eta> \<le> 1 / 1000000000000000" and L: "400 \<le> L"
  shows "\<bar>coefficient rnd fsqrt u - dct_scale u\<bar> \<le> 1 / 100000000000000"
proof (cases "u = 0")
  case False
  then show ?thesis by (simp add: coefficient_def dct_scale_def)
next
  case True
  define s where "s = fsqrt 2"
  define w where "w = 1 / s"
  have s1: "1 \<le> s" using S sqrt2_ge unfolding s_def by linarith
  have q1: "1 \<le> sqrt 2" using sqrt2_ge by linarith
  have "\<bar>1 / s - 1 / sqrt 2\<bar> \<le> \<bar>s - sqrt 2\<bar>" using s1 q1 by (rule inverse_close)
  with S have e: "\<bar>w - 1 / sqrt 2\<bar> \<le> 1 / 1000000000000000"
    unfolding w_def s_def by linarith
  have "0 < w" "w \<le> 1" using s1 by (simp_all add: w_def)
  then have m: "\<bar>w\<bar> \<le> 1" by linarith
  with L have "\<bar>w\<bar> \<le> L" by linarith
  then have "\<bar>rnd w - w\<bar> \<le> \<bar>w\<bar> / 1000000000000000 + \<eta>" by (rule R)
  with m \<eta>1 e have "\<bar>rnd w - 1 / sqrt 2\<bar> \<le> 1 / 100000000000000" by linarith
  with True show ?thesis
    by (simp add: coefficient_def dct_scale_def w_def s_def)
qed

lemma dct_cos_bound: "\<bar>dct_cos x u\<bar> \<le> 1"
  by (simp add: dct_cos_def)

lemma double_sum_bound:
  fixes t :: "nat \<Rightarrow> nat \<Rightarrow> real"
  assumes "\<And>x y. x < 8 \<Longrightarrow> y < 8 \<Longrightarrow> \<bar>t x y\<bar> \<le> T"
  shows "\<bar>\<Sum>x<8. \<Sum>y<8. t x y\<bar> \<le> 64 * T"
proof -
  have "\<bar>\<Sum>x<8. \<Sum>y<8. t x y\<bar> \<le> (\<Sum>x<8. \<bar>\<Sum>y<8. t x y\<bar>)" by (rule sum_abs)
  also have "\<dots> \<le> (\<Sum>x<(8::nat). \<Sum>y<(8::nat). T)"
  proof (rule sum_mono)
    fix x :: nat assume "x \<in> {..<8}"
    then have x: "x < 8" by simp
    have "\<bar>\<Sum>y<8. t x y\<bar> \<le> (\<Sum>y<8. \<bar>t x y\<bar>)" by (rule sum_abs)
    also have "\<dots> \<le> (\<Sum>y<(8::nat). T)"
      by (rule sum_mono) (use x assms in simp)
    finally show "\<bar>\<Sum>y<8. t x y\<bar> \<le> (\<Sum>y<(8::nat). T)" .
  qed
  also have "\<dots> = 64 * T" by simp
  finally show ?thesis .
qed

lemma rnd_mult_bound:
  fixes a a0 b b0 :: real
  assumes R: "\<And>z. \<bar>z\<bar> \<le> L \<Longrightarrow> \<bar>rnd z - z\<bar> \<le> \<bar>z\<bar> / 1000000000000000 + \<eta>"
    and "\<bar>a - a0\<bar> \<le> ea" and "\<bar>a0\<bar> \<le> A0" and "\<bar>b - b0\<bar> \<le> eb" and "\<bar>b0\<bar> \<le> B0"
    and "(A0 + ea) * (B0 + eb) \<le> L"
    and "ea * (B0 + eb) + A0 * eb + (A0 + ea) * (B0 + eb) / 1000000000000000 + \<eta> \<le> e'"
  shows "\<bar>rnd (a * b) - a0 * b0\<bar> \<le> e'"
  using rnd_mult_close [OF R assms(2-6)] assms(7) by (rule order_trans)

lemma abs_mult_bound:
  fixes a b :: real
  assumes "\<bar>a\<bar> \<le> A" and "\<bar>b\<bar> \<le> 1"
  shows "\<bar>a * b\<bar> \<le> A"
proof -
  have "\<bar>a * b\<bar> = \<bar>a\<bar> * \<bar>b\<bar>" by (rule abs_mult)
  also have "\<dots> \<le> A * 1" using assms by (intro mult_mono) simp_all
  finally show ?thesis by simp
qed

lemma forward_term_close:
  fixes m B L \<eta> c1 c2 C1 C2 :: real
  assumes R: "\<And>z. \<bar>z\<bar> \<le> L \<Longrightarrow> \<bar>rnd z - z\<bar> \<le> \<bar>z\<bar> / 1000000000000000 + \<eta>"
    and \<eta>0: "0 \<le> \<eta>" and \<eta>1: "\<eta> \<le> 1 / 1000000000000000"
    and L: "2000 * B + 400 \<le> L" and B0: "0 \<le> B"
    and m: "\<bar>m\<bar> \<le> B"
    and c1: "\<bar>c1 - C1\<bar> \<le> 3 / 100000000000" and C1: "\<bar>C1\<bar> \<le> 1"
    and c2: "\<bar>c2 - C2\<bar> \<le> 3 / 100000000000" and C2: "\<bar>C2\<bar> \<le> 1"
  shows "\<bar>rnd (rnd (m * c1) * c2) - m * C1 * C2\<bar> \<le> 8 / 100000000000 * B + 3 * \<eta>"
    and "\<bar>m * C1 * C2\<bar> \<le> B"
proof -
  have m0: "\<bar>m - m\<bar> \<le> 0" by simp
  have mC: "\<bar>m * C1\<bar> \<le> B" using m C1 by (rule abs_mult_bound)
  then show "\<bar>m * C1 * C2\<bar> \<le> B" using C2 by (rule abs_mult_bound)
  have p1: "\<bar>rnd (m * c1) - m * C1\<bar> \<le> 4 / 100000000000 * B + \<eta>"
    using R m0 m c1 C1
  proof (rule rnd_mult_bound)
    show "(B + 0) * (1 + 3 / 100000000000) \<le> L" using L B0 by (simp add: field_simps)
    show "0 * (1 + 3 / 100000000000) + B * (3 / 100000000000)
        + (B + 0) * (1 + 3 / 100000000000) / 1000000000000000 + \<eta>
        \<le> 4 / 100000000000 * B + \<eta>" using B0 by (simp add: field_simps)
  qed
  show "\<bar>rnd (rnd (m * c1) * c2) - m * C1 * C2\<bar> \<le> 8 / 100000000000 * B + 3 * \<eta>"
    using R p1 mC c2 C2
  proof (rule rnd_mult_bound)
    show "(B + (4 / 100000000000 * B + \<eta>)) * (1 + 3 / 100000000000) \<le> L"
      using L B0 \<eta>0 \<eta>1 by (simp add: field_simps)
    show "(4 / 100000000000 * B + \<eta>) * (1 + 3 / 100000000000) + B * (3 / 100000000000)
        + (B + (4 / 100000000000 * B + \<eta>)) * (1 + 3 / 100000000000) / 1000000000000000 + \<eta>
        \<le> 8 / 100000000000 * B + 3 * \<eta>"
      using B0 \<eta>0 by (simp add: field_simps)
  qed
qed

lemma dct_transform_close:
  fixes B L \<eta> :: real
  assumes R: "\<And>z. \<bar>z\<bar> \<le> L \<Longrightarrow> \<bar>rnd z - z\<bar> \<le> \<bar>z\<bar> / 1000000000000000 + \<eta>"
    and C: "\<And>z. \<bar>z\<bar> \<le> 21 \<Longrightarrow> \<bar>fcos z - cos z\<bar> \<le> 1 / 1000000000000000"
    and S: "\<bar>fsqrt 2 - sqrt 2\<bar> \<le> 1 / 1000000000000000"
    and \<eta>0: "0 \<le> \<eta>" and \<eta>1: "\<eta> \<le> 1 / 1000000000000000"
    and L: "2000 * B + 400 \<le> L" and B0: "0 \<le> B"
    and M: "\<And>x y. x < 8 \<Longrightarrow> y < 8 \<Longrightarrow> \<bar>M x y\<bar> \<le> B"
    and u: "u < 8" and v: "v < 8"
  shows "\<bar>dct_transform rnd fcos fsqrt M u v - dct_exact M u v\<bar>
      \<le> 15 / 10000000000 * B + 82 * \<eta>"
    and "\<bar>dct_exact M u v\<bar> \<le> 16 * B"
proof -
  define cu where "cu = coefficient rnd fsqrt u"
  define cv where "cv = coefficient rnd fsqrt v"
  define t where "t x y = rnd (rnd (M x y * cosine rnd fcos x u) * cosine rnd fcos y v)" for x y
  define t0 where "t0 x y = M x y * dct_cos x u * dct_cos y v" for x y
  define total where
    "total = fold (\<lambda>x. fold (\<lambda>y acc. rnd (acc + t x y)) [0..<8]) [0..<8] 0"
  define Sig where "Sig = (\<Sum>x<8. \<Sum>y<8. t0 x y)"
  define d where "d = 9 / 100000000000 * B + 5 * \<eta>"
  have L400: "400 \<le> L" using L B0 by linarith
  have cu: "\<bar>cu - dct_scale u\<bar> \<le> 1 / 100000000000000"
    unfolding cu_def using R S \<eta>0 \<eta>1 L400 by (rule coefficient_close)
  have cv: "\<bar>cv - dct_scale v\<bar> \<le> 1 / 100000000000000"
    unfolding cv_def using R S \<eta>0 \<eta>1 L400 by (rule coefficient_close)
  have te: "\<bar>t x y - t0 x y\<bar> \<le> 8 / 100000000000 * B + 3 * \<eta>"
    and tT: "\<bar>t0 x y\<bar> \<le> B" if "x < 8" "y < 8" for x y
  proof -
    have c1: "\<bar>cosine rnd fcos x u - dct_cos x u\<bar> \<le> 3 / 100000000000"
      using R C \<eta>0 \<eta>1 L400 that(1) u by (rule cosine_close)
    have c2: "\<bar>cosine rnd fcos y v - dct_cos y v\<bar> \<le> 3 / 100000000000"
      using R C \<eta>0 \<eta>1 L400 that(2) v by (rule cosine_close)
    show "\<bar>t x y - t0 x y\<bar> \<le> 8 / 100000000000 * B + 3 * \<eta>"
      unfolding t_def t0_def
      using R \<eta>0 \<eta>1 L B0 M [OF that] c1 dct_cos_bound c2 dct_cos_bound
      by (rule forward_term_close(1))
    show "\<bar>t0 x y\<bar> \<le> B"
      unfolding t0_def
      using R \<eta>0 \<eta>1 L B0 M [OF that] c1 dct_cos_bound c2 dct_cos_bound
      by (rule forward_term_close(2))
  qed
  have d0: "0 \<le> d" unfolding d_def using B0 \<eta>0 by simp
  have total: "\<bar>total - Sig\<bar> \<le> 64 * d"
    unfolding total_def Sig_def
  proof (rule double_loop_close [where T = B and L = L and \<eta> = \<eta>
        and e = "8 / 100000000000 * B + 3 * \<eta>" and S = "65 * B + 400 * \<eta>"])
    show "\<bar>z\<bar> \<le> L \<Longrightarrow> \<bar>rnd z - z\<bar> \<le> \<bar>z\<bar> / 1000000000000000 + \<eta>" for z
      by (rule R)
    show "x < 8 \<Longrightarrow> y < 8 \<Longrightarrow> \<bar>t x y - t0 x y\<bar> \<le> 8 / 100000000000 * B + 3 * \<eta>" for x y
      by (rule te)
    show "x < 8 \<Longrightarrow> y < 8 \<Longrightarrow> \<bar>t0 x y\<bar> \<le> B" for x y
      by (rule tT)
    show "8 / 100000000000 * B + 3 * \<eta> + (65 * B + 400 * \<eta>) / 1000000000000000 + \<eta> \<le> d"
      unfolding d_def using B0 \<eta>0 by (simp add: field_simps)
    show "64 * (B + d) \<le> 65 * B + 400 * \<eta>"
      unfolding d_def using B0 \<eta>0 by (simp add: field_simps)
    show "65 * B + 400 * \<eta> \<le> L" using L B0 \<eta>1 by linarith
  qed (fact B0 d0 \<eta>0)+
  have Sig: "\<bar>Sig\<bar> \<le> 64 * B"
    unfolding Sig_def using tT by (rule double_sum_bound)
  have q0: "\<bar>1 / 4 - 1 / 4\<bar> \<le> (0::real)" "\<bar>1 / 4\<bar> \<le> (1 / 4 :: real)" by simp_all
  have q1: "\<bar>rnd (1 / 4 * cu) - 1 / 4 * dct_scale u\<bar> \<le> 4 / 1000000000000000"
    using R q0 cu dct_scale_bound
  proof (rule rnd_mult_bound)
    show "(1 / 4 + 0) * (1 + 1 / 100000000000000) \<le> L" using L400 by simp
    show "0 * (1 + 1 / 100000000000000) + 1 / 4 * (1 / 100000000000000)
        + (1 / 4 + 0) * (1 + 1 / 100000000000000) / 1000000000000000 + \<eta>
        \<le> 4 / 1000000000000000"
      using \<eta>1 by simp
  qed
  have a1: "\<bar>1 / 4 * dct_scale u\<bar> \<le> 1 / 4"
    using q0(2) dct_scale_bound by (rule abs_mult_bound)
  have q2: "\<bar>rnd (rnd (1 / 4 * cu) * cv) - 1 / 4 * dct_scale u * dct_scale v\<bar>
      \<le> 1 / 100000000000000"
    using R q1 a1 cv dct_scale_bound
  proof (rule rnd_mult_bound)
    show "(1 / 4 + 4 / 1000000000000000) * (1 + 1 / 100000000000000) \<le> L"
      using L400 by simp
    show "4 / 1000000000000000 * (1 + 1 / 100000000000000) + 1 / 4 * (1 / 100000000000000)
        + (1 / 4 + 4 / 1000000000000000) * (1 + 1 / 100000000000000) / 1000000000000000 + \<eta>
        \<le> 1 / 100000000000000"
      using \<eta>1 by simp
  qed
  have a2: "\<bar>1 / 4 * dct_scale u * dct_scale v\<bar> \<le> 1 / 4"
    using a1 dct_scale_bound by (rule abs_mult_bound)
  have F: "\<bar>rnd (rnd (rnd (1 / 4 * cu) * cv) * total) - 1 / 4 * dct_scale u * dct_scale v * Sig\<bar>
      \<le> 15 / 10000000000 * B + 82 * \<eta>"
    using R q2 a2 total Sig
  proof (rule rnd_mult_bound)
    show "(1 / 4 + 1 / 100000000000000) * (64 * B + 64 * d) \<le> L"
      unfolding d_def using L B0 \<eta>0 \<eta>1 by (simp add: field_simps)
    show "1 / 100000000000000 * (64 * B + 64 * d) + 1 / 4 * (64 * d)
        + (1 / 4 + 1 / 100000000000000) * (64 * B + 64 * d) / 1000000000000000 + \<eta>
        \<le> 15 / 10000000000 * B + 82 * \<eta>"
      unfolding d_def using B0 \<eta>0 by (simp add: field_simps)
  qed
  then show "\<bar>dct_transform rnd fcos fsqrt M u v - dct_exact M u v\<bar>
      \<le> 15 / 10000000000 * B + 82 * \<eta>"
    by (simp only: dct_transform_def dct_exact_def Let_def cu_def cv_def total_def t_def
        Sig_def t0_def)
  have "\<bar>1 / 4 * dct_scale u * dct_scale v * Sig\<bar> =
      \<bar>1 / 4 * dct_scale u * dct_scale v\<bar> * \<bar>Sig\<bar>" by (rule abs_mult)
  also have "\<dots> \<le> 1 / 4 * (64 * B)"
    using a2 Sig by (intro mult_mono) simp_all
  finally show "\<bar>dct_exact M u v\<bar> \<le> 16 * B"
    by (simp add: dct_exact_def Sig_def t0_def)
qed

lemma abs_mult_bound_left:
  fixes a b :: real
  assumes "\<bar>a\<bar> \<le> 1" and "\<bar>b\<bar> \<le> A"
  shows "\<bar>a * b\<bar> \<le> A"
  using abs_mult_bound [OF assms(2) assms(1)] by (simp add: mult.commute)

lemma inverse_term_close:
  fixes B L \<eta> cu cv au av fh f c1 c2 C1 C2 :: real
  assumes R: "\<And>z. \<bar>z\<bar> \<le> L \<Longrightarrow> \<bar>rnd z - z\<bar> \<le> \<bar>z\<bar> / 1000000000000000 + \<eta>"
    and \<eta>0: "0 \<le> \<eta>" and \<eta>1: "\<eta> \<le> 1 / 1000000000000000"
    and L: "2000 * B + 400 \<le> L" and B0: "0 \<le> B"
    and cu: "\<bar>cu - au\<bar> \<le> 1 / 100000000000000" and au: "\<bar>au\<bar> \<le> 1"
    and cv: "\<bar>cv - av\<bar> \<le> 1 / 100000000000000" and av: "\<bar>av\<bar> \<le> 1"
    and fh: "\<bar>fh - f\<bar> \<le> 15 / 10000000000 * B + 82 * \<eta>" and f: "\<bar>f\<bar> \<le> 16 * B"
    and c1: "\<bar>c1 - C1\<bar> \<le> 3 / 100000000000" and C1: "\<bar>C1\<bar> \<le> 1"
    and c2: "\<bar>c2 - C2\<bar> \<le> 3 / 100000000000" and C2: "\<bar>C2\<bar> \<le> 1"
  shows "\<bar>rnd (rnd (rnd (rnd (cu * cv) * fh) * c1) * c2) - au * av * f * C1 * C2\<bar>
      \<le> 26 / 10000000000 * B + 88 * \<eta>"
    and "\<bar>au * av * f * C1 * C2\<bar> \<le> 16 * B"
proof -
  have m1: "\<bar>au * av\<bar> \<le> 1" using au av by (rule abs_mult_bound)
  have m2: "\<bar>au * av * f\<bar> \<le> 16 * B" using m1 f by (rule abs_mult_bound_left)
  have m3: "\<bar>au * av * f * C1\<bar> \<le> 16 * B" using m2 C1 by (rule abs_mult_bound)
  show "\<bar>au * av * f * C1 * C2\<bar> \<le> 16 * B" using m3 C2 by (rule abs_mult_bound)
  have r1: "\<bar>rnd (cu * cv) - au * av\<bar> \<le> 3 / 100000000000000"
    using R cu au cv av
  proof (rule rnd_mult_bound)
    show "(1 + 1 / 100000000000000) * (1 + 1 / 100000000000000) \<le> L"
      using L B0 by (simp add: field_simps)
    show "1 / 100000000000000 * (1 + 1 / 100000000000000) + 1 * (1 / 100000000000000)
        + (1 + 1 / 100000000000000) * (1 + 1 / 100000000000000) / 1000000000000000 + \<eta>
        \<le> 3 / 100000000000000"
      using \<eta>1 by simp
  qed
  have r2: "\<bar>rnd (rnd (cu * cv) * fh) - au * av * f\<bar> \<le> 16 / 10000000000 * B + 84 * \<eta>"
    using R r1 m1 fh f
  proof (rule rnd_mult_bound)
    show "(1 + 3 / 100000000000000) * (16 * B + (15 / 10000000000 * B + 82 * \<eta>)) \<le> L"
      using L B0 \<eta>0 \<eta>1 by (simp add: field_simps)
    show "3 / 100000000000000 * (16 * B + (15 / 10000000000 * B + 82 * \<eta>))
        + 1 * (15 / 10000000000 * B + 82 * \<eta>)
        + (1 + 3 / 100000000000000) * (16 * B + (15 / 10000000000 * B + 82 * \<eta>))
          / 1000000000000000 + \<eta>
        \<le> 16 / 10000000000 * B + 84 * \<eta>"
      using B0 \<eta>0 by (simp add: field_simps)
  qed
  have r3: "\<bar>rnd (rnd (rnd (cu * cv) * fh) * c1) - au * av * f * C1\<bar>
      \<le> 21 / 10000000000 * B + 86 * \<eta>"
    using R r2 m2 c1 C1
  proof (rule rnd_mult_bound)
    show "(16 * B + (16 / 10000000000 * B + 84 * \<eta>)) * (1 + 3 / 100000000000) \<le> L"
      using L B0 \<eta>0 \<eta>1 by (simp add: field_simps)
    show "(16 / 10000000000 * B + 84 * \<eta>) * (1 + 3 / 100000000000)
        + 16 * B * (3 / 100000000000)
        + (16 * B + (16 / 10000000000 * B + 84 * \<eta>)) * (1 + 3 / 100000000000)
          / 1000000000000000 + \<eta>
        \<le> 21 / 10000000000 * B + 86 * \<eta>"
      using B0 \<eta>0 by (simp add: field_simps)
  qed
  show "\<bar>rnd (rnd (rnd (rnd (cu * cv) * fh) * c1) * c2) - au * av * f * C1 * C2\<bar>
      \<le> 26 / 10000000000 * B + 88 * \<eta>"
    using R r3 m3 c2 C2
  proof (rule rnd_mult_bound)
    show "(16 * B + (21 / 10000000000 * B + 86 * \<eta>)) * (1 + 3 / 100000000000) \<le> L"
      using L B0 \<eta>0 \<eta>1 by (simp add: field_simps)
    show "(21 / 10000000000 * B + 86 * \<eta>) * (1 + 3 / 100000000000)
        + 16 * B * (3 / 100000000000)
        + (16 * B + (21 / 10000000000 * B + 86 * \<eta>)) * (1 + 3 / 100000000000)
          / 1000000000000000 + \<eta>
        \<le> 26 / 10000000000 * B + 88 * \<eta>"
      using B0 \<eta>0 by (simp add: field_simps)
  qed
qed

lemma idct_transform_close:
  fixes B L \<eta> :: real
  assumes R: "\<And>z. \<bar>z\<bar> \<le> L \<Longrightarrow> \<bar>rnd z - z\<bar> \<le> \<bar>z\<bar> / 1000000000000000 + \<eta>"
    and C: "\<And>z. \<bar>z\<bar> \<le> 21 \<Longrightarrow> \<bar>fcos z - cos z\<bar> \<le> 1 / 1000000000000000"
    and S: "\<bar>fsqrt 2 - sqrt 2\<bar> \<le> 1 / 1000000000000000"
    and \<eta>0: "0 \<le> \<eta>" and \<eta>1: "\<eta> \<le> 1 / 1000000000000000"
    and L: "2000 * B + 400 \<le> L" and B0: "0 \<le> B"
    and Fh: "\<And>u v. u < 8 \<Longrightarrow> v < 8 \<Longrightarrow> \<bar>Fh u v - F u v\<bar> \<le> 15 / 10000000000 * B + 82 * \<eta>"
    and F: "\<And>u v. u < 8 \<Longrightarrow> v < 8 \<Longrightarrow> \<bar>F u v\<bar> \<le> 16 * B"
    and x: "x < 8" and y: "y < 8"
  shows "\<bar>idct_transform rnd fcos fsqrt Fh x y - idct_exact F x y\<bar>
      \<le> 5 / 100000000 * B + 1442 * \<eta>"
proof -
  define t where "t u v = rnd (rnd (rnd (rnd (coefficient rnd fsqrt u * coefficient rnd fsqrt v)
      * Fh u v) * cosine rnd fcos x u) * cosine rnd fcos y v)" for u v
  define t0 where "t0 u v = dct_scale u * dct_scale v * F u v * dct_cos x u * dct_cos y v" for u v
  define total where
    "total = fold (\<lambda>u. fold (\<lambda>v acc. rnd (acc + t u v)) [0..<8]) [0..<8] 0"
  define Sig where "Sig = (\<Sum>u<8. \<Sum>v<8. t0 u v)"
  define d where "d = 27 / 10000000000 * B + 90 * \<eta>"
  have L400: "400 \<le> L" using L B0 by linarith
  have te: "\<bar>t u v - t0 u v\<bar> \<le> 26 / 10000000000 * B + 88 * \<eta>"
    and tT: "\<bar>t0 u v\<bar> \<le> 16 * B" if "u < 8" "v < 8" for u v
  proof -
    have cu: "\<bar>coefficient rnd fsqrt u - dct_scale u\<bar> \<le> 1 / 100000000000000"
      using R S \<eta>0 \<eta>1 L400 by (rule coefficient_close)
    have cv: "\<bar>coefficient rnd fsqrt v - dct_scale v\<bar> \<le> 1 / 100000000000000"
      using R S \<eta>0 \<eta>1 L400 by (rule coefficient_close)
    have c1: "\<bar>cosine rnd fcos x u - dct_cos x u\<bar> \<le> 3 / 100000000000"
      using R C \<eta>0 \<eta>1 L400 x that(1) by (rule cosine_close)
    have c2: "\<bar>cosine rnd fcos y v - dct_cos y v\<bar> \<le> 3 / 100000000000"
      using R C \<eta>0 \<eta>1 L400 y that(2) by (rule cosine_close)
    show "\<bar>t u v - t0 u v\<bar> \<le> 26 / 10000000000 * B + 88 * \<eta>"
      unfolding t_def t0_def
      using R \<eta>0 \<eta>1 L B0 cu dct_scale_bound cv dct_scale_bound Fh [OF that] F [OF that]
        c1 dct_cos_bound c2 dct_cos_bound
      by (rule inverse_term_close(1))
    show "\<bar>t0 u v\<bar> \<le> 16 * B"
      unfolding t0_def
      using R \<eta>0 \<eta>1 L B0 cu dct_scale_bound cv dct_scale_bound Fh [OF that] F [OF that]
        c1 dct_cos_bound c2 dct_cos_bound
      by (rule inverse_term_close(2))
  qed
  have d0: "0 \<le> d" unfolding d_def using B0 \<eta>0 by simp
  have T0: "0 \<le> 16 * B" using B0 by simp
  have total: "\<bar>total - Sig\<bar> \<le> 64 * d"
    unfolding total_def Sig_def
  proof (rule double_loop_close [where T = "16 * B" and L = L and \<eta> = \<eta>
        and e = "26 / 10000000000 * B + 88 * \<eta>" and S = "1025 * B + 6000 * \<eta>"])
    show "\<bar>z\<bar> \<le> L \<Longrightarrow> \<bar>rnd z - z\<bar> \<le> \<bar>z\<bar> / 1000000000000000 + \<eta>" for z
      by (rule R)
    show "u < 8 \<Longrightarrow> v < 8 \<Longrightarrow> \<bar>t u v - t0 u v\<bar> \<le> 26 / 10000000000 * B + 88 * \<eta>" for u v
      by (rule te)
    show "u < 8 \<Longrightarrow> v < 8 \<Longrightarrow> \<bar>t0 u v\<bar> \<le> 16 * B" for u v
      by (rule tT)
    show "26 / 10000000000 * B + 88 * \<eta> + (1025 * B + 6000 * \<eta>) / 1000000000000000 + \<eta> \<le> d"
      unfolding d_def using B0 \<eta>0 by (simp add: field_simps)
    show "64 * (16 * B + d) \<le> 1025 * B + 6000 * \<eta>"
      unfolding d_def using B0 \<eta>0 by (simp add: field_simps)
    show "1025 * B + 6000 * \<eta> \<le> L" using L B0 \<eta>1 by linarith
  qed (fact T0 d0 \<eta>0)+
  have Sig: "\<bar>Sig\<bar> \<le> 64 * (16 * B)"
    unfolding Sig_def using tT by (rule double_sum_bound)
  have q0: "\<bar>1 / 4 - 1 / 4\<bar> \<le> (0::real)" "\<bar>1 / 4\<bar> \<le> (1 / 4 :: real)" by simp_all
  have "\<bar>rnd (1 / 4 * total) - 1 / 4 * Sig\<bar> \<le> 5 / 100000000 * B + 1442 * \<eta>"
    using R q0 total Sig
  proof (rule rnd_mult_bound)
    show "(1 / 4 + 0) * (64 * (16 * B) + 64 * d) \<le> L"
      unfolding d_def using L B0 \<eta>0 \<eta>1 by (simp add: field_simps)
    show "0 * (64 * (16 * B) + 64 * d) + 1 / 4 * (64 * d)
        + (1 / 4 + 0) * (64 * (16 * B) + 64 * d) / 1000000000000000 + \<eta>
        \<le> 5 / 100000000 * B + 1442 * \<eta>"
      unfolding d_def using B0 \<eta>0 by (simp add: field_simps)
  qed
  then show ?thesis
    by (simp only: idct_transform_def idct_exact_def Let_def total_def t_def Sig_def t0_def)
qed

text \<open>
  C4. Transform round trip. Let \<open>rnd\<close> round as binary64 does on its finite range
  (relative error at most \<open>2 ^ -53\<close>, and at most \<open>2 ^ -1075\<close> more where the result is
  subnormal), let \<open>fcos\<close> be within \<open>2 ^ -52\<close> of the cosine on the arguments up to 21
  and \<open>fsqrt 2\<close> within \<open>2 ^ -52\<close> of the square root of 2. Then for every 8 by 8 matrix
  \<open>M\<close> with entries bounded in absolute value by \<open>B\<close>, at most \<open>2 ^ 1000\<close>, every entry
  of \<open>idct_transform\<close> applied to \<open>dct_transform\<close> of \<open>M\<close> differs from the entry of \<open>M\<close>
  by at most \<open>B / 10 ^ 7 + 1 / 10 ^ 300\<close>: a relative tolerance of \<open>10 ^ -7\<close> for
  normalised inputs.
\<close>

theorem dct_round_trip:
  fixes M :: "nat \<Rightarrow> nat \<Rightarrow> real" and B :: real
  assumes rnd: "\<forall>z. \<bar>z\<bar> \<le> 2 ^ 1023 \<longrightarrow> \<bar>rnd z - z\<bar> \<le> \<bar>z\<bar> / 2 ^ 53 + 1 / 2 ^ 1075"
    and fcos: "\<forall>z. \<bar>z\<bar> \<le> 21 \<longrightarrow> \<bar>fcos z - cos z\<bar> \<le> 1 / 2 ^ 52"
    and fsqrt: "\<bar>fsqrt 2 - sqrt 2\<bar> \<le> 1 / 2 ^ 52"
    and M: "\<forall>x<8. \<forall>y<8. \<bar>M x y\<bar> \<le> B" and B: "B \<le> 2 ^ 1000"
    and x: "x < 8" and y: "y < 8"
  shows "\<bar>idct_transform rnd fcos fsqrt (dct_transform rnd fcos fsqrt M) x y - M x y\<bar>
      \<le> B / 10 ^ 7 + 1 / 10 ^ 300"
proof -
  define L :: real where "L = 2 ^ 1023"
  define \<eta> :: real where "\<eta> = 1 / 2 ^ 1075"
  have \<eta>0: "0 \<le> \<eta>" by (simp add: \<eta>_def)
  have \<eta>1: "\<eta> \<le> 1 / 1000000000000000" by (simp add: \<eta>_def)
  have "\<bar>M 0 0\<bar> \<le> B" using M by simp
  then have B0: "0 \<le> B" by linarith
  have "2000 * B + 400 \<le> 2000 * 2 ^ 1000 + 400" using B by simp
  also have "\<dots> \<le> L" by (simp add: L_def)
  finally have L: "2000 * B + 400 \<le> L" .
  have R: "\<bar>rnd z - z\<bar> \<le> \<bar>z\<bar> / 1000000000000000 + \<eta>" if "\<bar>z\<bar> \<le> L" for z
  proof -
    have "\<bar>rnd z - z\<bar> \<le> \<bar>z\<bar> / 2 ^ 53 + \<eta>"
      using rnd that by (simp add: L_def \<eta>_def)
    moreover have "\<bar>z\<bar> / 2 ^ 53 \<le> \<bar>z\<bar> / 1000000000000000"
      by (intro divide_left_mono) simp_all
    ultimately show ?thesis by linarith
  qed
  have C: "\<bar>fcos z - cos z\<bar> \<le> 1 / 1000000000000000" if "\<bar>z\<bar> \<le> 21" for z
  proof -
    have "\<bar>fcos z - cos z\<bar> \<le> 1 / 2 ^ 52" using fcos that by simp
    then show ?thesis by simp
  qed
  have S: "\<bar>fsqrt 2 - sqrt 2\<bar> \<le> 1 / 1000000000000000" using fsqrt by simp
  have Mb: "\<bar>M x y\<bar> \<le> B" if "x < 8" "y < 8" for x y using M that by simp
  have Fh: "\<bar>dct_transform rnd fcos fsqrt M u v - dct_exact M u v\<bar>
      \<le> 15 / 10000000000 * B + 82 * \<eta>" if "u < 8" "v < 8" for u v
    using R C S \<eta>0 \<eta>1 L B0 Mb that by (rule dct_transform_close(1))
  have F: "\<bar>dct_exact M u v\<bar> \<le> 16 * B" if "u < 8" "v < 8" for u v
    using R C S \<eta>0 \<eta>1 L B0 Mb that by (rule dct_transform_close(2))
  have "\<bar>idct_transform rnd fcos fsqrt (dct_transform rnd fcos fsqrt M) x y
      - idct_exact (dct_exact M) x y\<bar> \<le> 5 / 100000000 * B + 1442 * \<eta>"
    using R C S \<eta>0 \<eta>1 L B0 Fh F x y by (rule idct_transform_close)
  moreover have "idct_exact (dct_exact M) x y = M x y"
    using x y by (rule idct_dct_exact)
  moreover have "1442 * \<eta> \<le> 1 / 10 ^ 300" by (simp add: \<eta>_def)
  moreover have "5 / 100000000 * B \<le> B / 10 ^ 7" using B0 by simp
  ultimately show ?thesis by linarith
qed

theorem dct_round_trip_witness:
  "\<bar>idct_transform (\<lambda>z. z) cos sqrt
      (dct_transform (\<lambda>z. z) cos sqrt (\<lambda>x y. if x = y then 1 else 0)) 3 3 - 1\<bar>
    \<le> 1 / 10 ^ 7 + 1 / 10 ^ 300"
proof -
  let ?M = "\<lambda>(x::nat) (y::nat). if x = y then 1 else (0::real)"
  have "\<forall>x<8. \<forall>y<8. \<bar>?M x y\<bar> \<le> 1" by simp
  with dct_round_trip [of "\<lambda>z. z" cos sqrt ?M 1 3 3] show ?thesis by simp
qed

end
